theory Spec2Isabelle
  imports Complex_Main "HOL-Library.AList" "HOL-Library.Sublist"
begin

chapter \<open>Runtime containment layer: fail modes, thresholds, windows, kill executor\<close>

text \<open>
  Conventions of the embedding.
  \<^item> Python floats (timestamps, risk scores, byte totals, multipliers) are modelled as
    \<open>real\<close>: the theorems are about the arithmetic the code writes down, not about
    IEEE rounding.
  \<^item> Every read of the wall clock (\<open>time.time()\<close>) is an explicit argument \<open>now\<close>;
    one call of an operation reads one instant.
  \<^item> Python dictionaries whose order or size matters are association lists in insertion
    order (\<open>AList.update\<close> overwrites in place or appends, \<open>AList.delete\<close> removes).
  \<^item> Logging is not modelled; it has no effect on any returned value or stored field.
\<close>

section \<open>fail\_mode.py\<close>

subsection \<open>Configuration and cached policies\<close>

datatype FailMode = CLOSED | CACHED | OPEN

record FailModeConfig =
  mode :: FailMode
  api_timeout_ms :: int
  cache_ttl_seconds :: int
  cache_file_path :: string
  max_cache_entries :: int
  alert_on_fail :: bool
  log_level :: string

text \<open>The dataclass defaults of \<open>FailModeConfig\<close>.\<close>

definition FailModeConfig_default :: FailModeConfig where
  "FailModeConfig_default =
     \<lparr> mode = CLOSED, api_timeout_ms = 100, cache_ttl_seconds = 60,
       cache_file_path = ''.fence_policy_cache.json'', max_cache_entries = 10000,
       alert_on_fail = True, log_level = ''WARNING'' \<rparr>"

record CachedPolicy =
  action :: string
  target :: string
  allowed :: bool
  risk_score :: real
  cached_at :: real
  expires_at :: real
  policy_hash :: string
  metadata :: "(string \<times> string) list"

text \<open>
  Two library functions are used by \<open>CachedPolicy._compute_hash\<close> and are not part of
  the repository: \<open>hashlib.sha256(...).hexdigest()\<close> and the formatting of a float inside
  an f-string. They are parameters of the model.
\<close>

record pylib =
  sha256_hexdigest :: "string \<Rightarrow> string"
  str_float :: "real \<Rightarrow> string"

definition str_bool :: "bool \<Rightarrow> string" where
  "str_bool b = (if b then ''True'' else ''False'')"

definition is_expired :: "real \<Rightarrow> CachedPolicy \<Rightarrow> bool" where
  "is_expired now p = (now > expires_at p)"

definition compute_hash :: "pylib \<Rightarrow> CachedPolicy \<Rightarrow> string" where
  "compute_hash lib p =
     take 16 (sha256_hexdigest lib
       (action p @ '':'' @ target p @ '':'' @ str_bool (allowed p) @ '':'' @
        str_float lib (risk_score p) @ '':'' @ str_float lib (cached_at p)))"

definition verify_integrity :: "pylib \<Rightarrow> CachedPolicy \<Rightarrow> bool" where
  "verify_integrity lib p = (policy_hash p = compute_hash lib p)"

subsection \<open>PolicyCache\<close>

text \<open>
  \<open>disk_file\<close> is the content of the JSON file at \<open>cache_file_path\<close>: \<open>None\<close> when the
  file does not exist. I/O failures (which the code catches and logs) are not modelled.
\<close>

record PolicyCache =
  pc_config :: FailModeConfig
  cache :: "(string \<times> CachedPolicy) list"
  hits :: nat
  misses :: nat
  disk_file :: "CachedPolicy list option"

definition make_key :: "string \<Rightarrow> string \<Rightarrow> string" where
  "make_key a t = a @ ''::'' @ t"

definition load_from_disk :: "pylib \<Rightarrow> real \<Rightarrow> PolicyCache \<Rightarrow> PolicyCache" where
  "load_from_disk lib now pc =
     (case disk_file pc of
        None \<Rightarrow> pc
      | Some entries \<Rightarrow>
          pc\<lparr> cache :=
            fold (\<lambda>policy c.
                    if \<not> is_expired now policy \<and> verify_integrity lib policy
                    then AList.update (make_key (action policy) (target policy)) policy c
                    else c)
                 entries (cache pc) \<rparr>)"

definition save_to_disk :: "real \<Rightarrow> PolicyCache \<Rightarrow> PolicyCache" where
  "save_to_disk now pc =
     pc\<lparr> disk_file := Some (filter (\<lambda>policy. \<not> is_expired now policy) (map snd (cache pc))) \<rparr>"

definition cleanup_oldest :: "PolicyCache \<Rightarrow> PolicyCache" where
  "cleanup_oldest pc =
     (let sorted_entries = sort_key (\<lambda>x. cached_at (snd x)) (cache pc);
          remove_count = length sorted_entries div 10
      in pc\<lparr> cache := fold (\<lambda>e c. AList.delete (fst e) c)
                             (take remove_count sorted_entries) (cache pc) \<rparr>)"

definition PolicyCache_init :: "pylib \<Rightarrow> real \<Rightarrow> FailModeConfig \<Rightarrow> CachedPolicy list option \<Rightarrow> PolicyCache" where
  "PolicyCache_init lib now cfg file =
     load_from_disk lib now
       \<lparr> pc_config = cfg, cache = [], hits = 0, misses = 0, disk_file = file \<rparr>"

definition cache_get :: "pylib \<Rightarrow> real \<Rightarrow> PolicyCache \<Rightarrow> string \<Rightarrow> string
    \<Rightarrow> CachedPolicy option \<times> PolicyCache" where
  "cache_get lib now pc a t =
     (let cache_key = make_key a t in
      case map_of (cache pc) cache_key of
        None \<Rightarrow> (None, pc\<lparr> misses := misses pc + 1 \<rparr>)
      | Some policy \<Rightarrow>
          if is_expired now policy then
            (None, pc\<lparr> cache := AList.delete cache_key (cache pc), misses := misses pc + 1 \<rparr>)
          else if \<not> verify_integrity lib policy then
            (None, pc\<lparr> cache := AList.delete cache_key (cache pc), misses := misses pc + 1 \<rparr>)
          else (Some policy, pc\<lparr> hits := hits pc + 1 \<rparr>))"

definition cache_set :: "pylib \<Rightarrow> real \<Rightarrow> PolicyCache \<Rightarrow> string \<Rightarrow> string \<Rightarrow> bool \<Rightarrow> real
    \<Rightarrow> (string \<times> string) list option \<Rightarrow> PolicyCache" where
  "cache_set lib now pc a t al risk md =
     (let cache_key = make_key a t;
          cached = now;
          expires = cached + real_of_int (cache_ttl_seconds (pc_config pc));
          policy0 = \<lparr> action = a, target = t, allowed = al, risk_score = risk,
                      cached_at = cached, expires_at = expires, policy_hash = [],
                      metadata = (case md of None \<Rightarrow> [] | Some m \<Rightarrow> m) \<rparr>;
          policy = policy0\<lparr> policy_hash := compute_hash lib policy0 \<rparr>;
          pc1 = pc\<lparr> cache := AList.update cache_key policy (cache pc) \<rparr>;
          pc2 = (if int (length (cache pc1)) > max_cache_entries (pc_config pc1)
                 then cleanup_oldest pc1 else pc1)
      in if length (cache pc2) mod 100 = 0 then save_to_disk now pc2 else pc2)"

subsection \<open>FailModeHandler\<close>

text \<open>
  The reason string of a decision is kept as a structured value (which of the four
  messages it is, and the values interpolated into it).
\<close>

datatype reason =
    ReasonFailClosed string string
  | ReasonCachedPolicy real bool real
  | ReasonNoCachedPolicy string string
  | ReasonFailOpen string string

record alert =
  al_mode :: string
  al_action :: string
  al_target :: string
  al_error :: string

record FailModeHandler =
  fh_config :: FailModeConfig
  fh_cache :: PolicyCache
  fail_closed_count :: nat
  fail_cached_count :: nat
  fail_open_count :: nat
  last_failure_time :: "real option"
  alerts :: "alert list"

text \<open>\<open>FailModeHandler(config)\<close>: \<open>config or FailModeConfig()\<close>.\<close>

definition FailModeHandler_init :: "pylib \<Rightarrow> real \<Rightarrow> FailModeConfig option
    \<Rightarrow> CachedPolicy list option \<Rightarrow> FailModeHandler" where
  "FailModeHandler_init lib now config file =
     (let cfg = (case config of None \<Rightarrow> FailModeConfig_default | Some c \<Rightarrow> c)
      in \<lparr> fh_config = cfg, fh_cache = PolicyCache_init lib now cfg file,
           fail_closed_count = 0, fail_cached_count = 0, fail_open_count = 0,
           last_failure_time = None, alerts = [] \<rparr>)"

definition send_alert :: "string \<Rightarrow> string \<Rightarrow> string \<Rightarrow> string \<Rightarrow> FailModeHandler \<Rightarrow> FailModeHandler" where
  "send_alert m a t e h =
     h\<lparr> alerts := alerts h @ [\<lparr> al_mode = m, al_action = a, al_target = t, al_error = e \<rparr>] \<rparr>"

definition handle_fail_closed :: "FailModeHandler \<Rightarrow> string \<Rightarrow> string \<Rightarrow> string
    \<Rightarrow> (bool \<times> reason \<times> real) \<times> FailModeHandler" where
  "handle_fail_closed h a t error_msg =
     (let h1 = h\<lparr> fail_closed_count := fail_closed_count h + 1 \<rparr>;
          h2 = (if alert_on_fail (fh_config h1)
                then send_alert ''FAIL-CLOSED'' a t error_msg h1 else h1)
      in ((False, ReasonFailClosed a error_msg, 100), h2))"

definition handle_fail_cached :: "pylib \<Rightarrow> real \<Rightarrow> FailModeHandler \<Rightarrow> string \<Rightarrow> string \<Rightarrow> string
    \<Rightarrow> (bool \<times> reason \<times> real) \<times> FailModeHandler" where
  "handle_fail_cached lib now h a t error_msg =
     (case cache_get lib now (fh_cache h) a t of
        (Some cached, pc) \<Rightarrow>
          ((allowed cached,
            ReasonCachedPolicy (now - cached_at cached) (allowed cached) (risk_score cached),
            risk_score cached),
           h\<lparr> fh_cache := pc, fail_cached_count := fail_cached_count h + 1 \<rparr>)
      | (None, pc) \<Rightarrow>
          ((False, ReasonNoCachedPolicy a t, 100),
           h\<lparr> fh_cache := pc, fail_closed_count := fail_closed_count h + 1 \<rparr>))"

definition handle_fail_open :: "FailModeHandler \<Rightarrow> string \<Rightarrow> string \<Rightarrow> string
    \<Rightarrow> (bool \<times> reason \<times> real) \<times> FailModeHandler" where
  "handle_fail_open h a t error_msg =
     (let h1 = h\<lparr> fail_open_count := fail_open_count h + 1 \<rparr>
      in ((True, ReasonFailOpen a error_msg, 0),
          send_alert ''FAIL-OPEN (DANGEROUS)'' a t error_msg h1))"

text \<open>
  \<open>error\<close> is the text of the exception when one is passed (\<open>str(error)\<close>), else the
  message is \<open>"Unknown error"\<close>.
\<close>

definition on_validation_failure :: "pylib \<Rightarrow> real \<Rightarrow> FailModeHandler \<Rightarrow> string \<Rightarrow> string
    \<Rightarrow> string option \<Rightarrow> (bool \<times> reason \<times> real) \<times> FailModeHandler" where
  "on_validation_failure lib now h a t error =
     (let h1 = h\<lparr> last_failure_time := Some now \<rparr>;
          error_msg = (case error of None \<Rightarrow> ''Unknown error'' | Some e \<Rightarrow> e)
      in case mode (fh_config h1) of
           CLOSED \<Rightarrow> handle_fail_closed h1 a t error_msg
         | CACHED \<Rightarrow> handle_fail_cached lib now h1 a t error_msg
         | OPEN \<Rightarrow> handle_fail_open h1 a t error_msg)"

definition cache_result :: "pylib \<Rightarrow> real \<Rightarrow> FailModeHandler \<Rightarrow> string \<Rightarrow> string \<Rightarrow> bool \<Rightarrow> real
    \<Rightarrow> (string \<times> string) list option \<Rightarrow> FailModeHandler" where
  "cache_result lib now h a t al risk md =
     h\<lparr> fh_cache := cache_set lib now (fh_cache h) a t al risk md \<rparr>"

text \<open>
  The entry \<open>PolicyCache.get\<close> serves for an (action, target) pair: stored under the
  pair's key, not expired at \<open>now\<close>, and with a hash that verifies.
\<close>

definition usable_entry :: "pylib \<Rightarrow> real \<Rightarrow> PolicyCache \<Rightarrow> string \<Rightarrow> string \<Rightarrow> CachedPolicy \<Rightarrow> bool" where
  "usable_entry lib now pc a t p =
     (map_of (cache pc) (make_key a t) = Some p \<and> \<not> is_expired now p \<and> verify_integrity lib p)"

section \<open>behavioral\_thresholds.py\<close>

subsection \<open>Threshold configuration and breaches\<close>

datatype ThresholdAction = WARN | BLOCK | THROTTLE | KILL

record ThresholdConfig =
  name :: string
  action_type :: string
  max_count :: int
  window_seconds :: int
  action_on_breach :: ThresholdAction
  cooldown_seconds :: int
  multiplier_for_kill :: real

text \<open>A \<open>ThresholdConfig(...)\<close> call that leaves \<open>cooldown_seconds\<close> at its default 60.\<close>

definition mk_threshold :: "string \<Rightarrow> string \<Rightarrow> int \<Rightarrow> int \<Rightarrow> ThresholdAction \<Rightarrow> real \<Rightarrow> ThresholdConfig" where
  "mk_threshold n a m w act mult =
     \<lparr> name = n, action_type = a, max_count = m, window_seconds = w,
       action_on_breach = act, cooldown_seconds = 60, multiplier_for_kill = mult \<rparr>"

definition DEFAULT_THRESHOLDS :: "ThresholdConfig list" where
  "DEFAULT_THRESHOLDS =
     [ mk_threshold ''File Read Limit'' ''file_read'' 100 60 BLOCK 2,
       mk_threshold ''File Write Limit'' ''file_write'' 50 60 BLOCK (3/2),
       mk_threshold ''File Delete Limit'' ''file_delete'' 10 60 KILL 1,
       mk_threshold ''Network Request Limit'' ''network_request'' 50 60 THROTTLE 3,
       mk_threshold ''External API Limit'' ''external_api'' 30 60 BLOCK 2,
       mk_threshold ''Data Upload Limit'' ''data_upload'' 10 60 KILL 1,
       mk_threshold ''Shell Exec Limit'' ''shell_exec'' 10 300 KILL 1,
       mk_threshold ''Process Spawn Limit'' ''process_spawn'' 5 60 BLOCK (3/2),
       mk_threshold ''DB Query Limit'' ''db_query'' 200 60 THROTTLE 3,
       mk_threshold ''DB Write Limit'' ''db_write'' 50 60 BLOCK 2,
       mk_threshold ''Transaction Limit'' ''transaction'' 20 3600 BLOCK 2,
       mk_threshold ''High Value TX Limit'' ''high_value_tx'' 5 3600 KILL 1 ]"

text \<open>
  \<open>ThresholdBreach\<close>; its \<open>timestamp\<close> field (a \<open>datetime.utcnow()\<close> default that no
  code reads) is left out.
\<close>

record ThresholdBreach =
  b_agent_id :: string
  b_threshold_name :: string
  b_action_type :: string
  b_count :: int
  b_limit :: int
  b_window_seconds :: int
  breach_action :: ThresholdAction
  should_kill :: bool

subsection \<open>BehavioralThresholds\<close>

text \<open>
  The two optional callbacks are modelled by whether one is registered and by the log of
  the calls made to them. \<open>action_history\<close> is the \<open>defaultdict\<close> of
  \<open>defaultdict(list)\<close>: a total function with default \<open>[]\<close>. \<open>cooldowns\<close> is the
  \<open>defaultdict(dict)\<close>, whose key presence \<open>_is_in_cooldown\<close> tests.
\<close>

datatype callback_call = OnBreach ThresholdBreach | OnKill string ThresholdBreach

record BehavioralThresholds =
  thresholds :: "(string \<times> ThresholdConfig) list"
  on_breach :: bool
  on_kill :: bool
  action_history :: "string \<Rightarrow> string \<Rightarrow> real list"
  cooldowns :: "string \<Rightarrow> (string \<Rightarrow> real option) option"
  breach_history :: "ThresholdBreach list"
  total_checks :: nat
  total_allowed :: nat
  total_blocked :: nat
  total_kills :: nat
  breaches_by_type :: "string \<Rightarrow> nat"
  callback_log :: "callback_call list"

text \<open>
  \<open>__init__\<close>: \<open>{t.action_type: t for t in (thresholds or DEFAULT_THRESHOLDS)}\<close>; an
  empty list is falsy, so it selects the defaults as \<open>None\<close> does.
\<close>

definition BehavioralThresholds_init :: "ThresholdConfig list option \<Rightarrow> bool \<Rightarrow> bool \<Rightarrow> BehavioralThresholds" where
  "BehavioralThresholds_init ths ob ok =
     (let lst = (case ths of None \<Rightarrow> DEFAULT_THRESHOLDS
                 | Some l \<Rightarrow> if l = [] then DEFAULT_THRESHOLDS else l)
      in \<lparr> thresholds = fold (\<lambda>t d. AList.update (action_type t) t d) lst [],
           on_breach = ob, on_kill = ok,
           action_history = (\<lambda>_ _. []),
           cooldowns = (\<lambda>_. None),
           breach_history = [],
           total_checks = 0, total_allowed = 0, total_blocked = 0, total_kills = 0,
           breaches_by_type = (\<lambda>_. 0),
           callback_log = [] \<rparr>)"

definition count_recent_actions :: "BehavioralThresholds \<Rightarrow> string \<Rightarrow> string \<Rightarrow> real \<Rightarrow> int
    \<Rightarrow> int \<times> BehavioralThresholds" where
  "count_recent_actions bt agent atype now window =
     (let cutoff = now - real_of_int window;
          history = action_history bt agent atype;
          kept = filter (\<lambda>ts. ts > cutoff) history
      in (int (length kept),
          bt\<lparr> action_history :=
                (action_history bt)(agent := (action_history bt agent)(atype := kept)) \<rparr>))"

definition record_action :: "BehavioralThresholds \<Rightarrow> string \<Rightarrow> string \<Rightarrow> string \<Rightarrow> real
    \<Rightarrow> (string \<times> string) list option \<Rightarrow> BehavioralThresholds" where
  "record_action bt agent atype tgt timestamp md =
     bt\<lparr> action_history :=
           (action_history bt)(agent :=
              (action_history bt agent)(atype := action_history bt agent atype @ [timestamp])) \<rparr>"

definition is_in_cooldown :: "BehavioralThresholds \<Rightarrow> string \<Rightarrow> string \<Rightarrow> real \<Rightarrow> bool" where
  "is_in_cooldown bt agent atype now =
     (case cooldowns bt agent of
        None \<Rightarrow> False
      | Some d \<Rightarrow> now < (case d atype of None \<Rightarrow> 0 | Some cooldown_end \<Rightarrow> cooldown_end))"

definition handle_breach :: "BehavioralThresholds \<Rightarrow> string \<Rightarrow> ThresholdConfig \<Rightarrow> int \<Rightarrow> real
    \<Rightarrow> ThresholdBreach \<times> BehavioralThresholds" where
  "handle_breach bt agent threshold cnt now =
     (let kill_threshold = real_of_int (max_count threshold) * multiplier_for_kill threshold;
          sk = (real_of_int cnt \<ge> kill_threshold \<or> action_on_breach threshold = KILL);
          breach = \<lparr> b_agent_id = agent, b_threshold_name = name threshold,
                     b_action_type = action_type threshold, b_count = cnt,
                     b_limit = max_count threshold,
                     b_window_seconds = window_seconds threshold,
                     breach_action = action_on_breach threshold, should_kill = sk \<rparr>;
          inner = (case cooldowns bt agent of None \<Rightarrow> (\<lambda>_. None) | Some d \<Rightarrow> d);
          bt1 = bt\<lparr> total_blocked := total_blocked bt + 1,
                     breaches_by_type := (breaches_by_type bt)
                        (action_type threshold := breaches_by_type bt (action_type threshold) + 1),
                     breach_history := breach_history bt @ [breach],
                     cooldowns := (cooldowns bt)(agent :=
                        Some (inner(action_type threshold :=
                                Some (now + real_of_int (cooldown_seconds threshold))))) \<rparr>;
          bt2 = (if sk then bt1\<lparr> total_kills := total_kills bt1 + 1 \<rparr> else bt1);
          bt3 = (if on_breach bt2
                 then bt2\<lparr> callback_log := callback_log bt2 @ [OnBreach breach] \<rparr> else bt2);
          bt4 = (if sk \<and> on_kill bt3
                 then bt3\<lparr> callback_log := callback_log bt3 @ [OnKill agent breach] \<rparr> else bt3)
      in (breach, bt4))"

definition cooldown_breach :: "string \<Rightarrow> string \<Rightarrow> ThresholdBreach" where
  "cooldown_breach agent atype =
     \<lparr> b_agent_id = agent, b_threshold_name = ''Cooldown Active'', b_action_type = atype,
       b_count = 0, b_limit = 0, b_window_seconds = 0, breach_action = BLOCK,
       should_kill = False \<rparr>"

definition check_action :: "BehavioralThresholds \<Rightarrow> string \<Rightarrow> string \<Rightarrow> string
    \<Rightarrow> (string \<times> string) list option \<Rightarrow> real
    \<Rightarrow> (bool \<times> ThresholdBreach option) \<times> BehavioralThresholds" where
  "check_action bt agent atype tgt md now =
     (let bt0 = bt\<lparr> total_checks := total_checks bt + 1 \<rparr> in
      if is_in_cooldown bt0 agent atype now then
        ((False, Some (cooldown_breach agent atype)),
         bt0\<lparr> total_blocked := total_blocked bt0 + 1 \<rparr>)
      else
        (case map_of (thresholds bt0) atype of
           None \<Rightarrow>
             (let bt1 = record_action bt0 agent atype tgt now md
              in ((True, None), bt1\<lparr> total_allowed := total_allowed bt1 + 1 \<rparr>))
         | Some threshold \<Rightarrow>
             (case count_recent_actions bt0 agent atype now (window_seconds threshold) of
                (cnt, bt1) \<Rightarrow>
                  if cnt \<ge> max_count threshold then
                    (case handle_breach bt1 agent threshold cnt now of
                       (breach, bt2) \<Rightarrow> ((False, Some breach), bt2))
                  else
                    (let bt2 = record_action bt1 agent atype tgt now md
                     in ((True, None), bt2\<lparr> total_allowed := total_allowed bt2 + 1 \<rparr>)))))"

text \<open>A run of \<open>check_action\<close> calls by one agent for one action type, one per instant.\<close>

fun check_actions :: "BehavioralThresholds \<Rightarrow> string \<Rightarrow> string \<Rightarrow> real list
    \<Rightarrow> (bool \<times> ThresholdBreach option) list \<times> BehavioralThresholds" where
  "check_actions bt agent atype [] = ([], bt)"
| "check_actions bt agent atype (t # ts) =
     (case check_action bt agent atype [] None t of
        (r, bt1) \<Rightarrow>
          (case check_actions bt1 agent atype ts of (rs, bt2) \<Rightarrow> (r # rs, bt2)))"

definition add_threshold :: "BehavioralThresholds \<Rightarrow> ThresholdConfig \<Rightarrow> BehavioralThresholds" where
  "add_threshold bt config =
     bt\<lparr> thresholds := AList.update (action_type config) config (thresholds bt) \<rparr>"

definition remove_threshold :: "BehavioralThresholds \<Rightarrow> string \<Rightarrow> BehavioralThresholds" where
  "remove_threshold bt atype = bt\<lparr> thresholds := AList.delete atype (thresholds bt) \<rparr>"

definition reset_agent :: "BehavioralThresholds \<Rightarrow> string \<Rightarrow> BehavioralThresholds" where
  "reset_agent bt agent =
     bt\<lparr> action_history := (action_history bt)(agent := (\<lambda>_. [])),
         cooldowns := (cooldowns bt)(agent := None) \<rparr>"

subsection \<open>ExfiltrationDetector\<close>

datatype exfil_reason =
    NoExfiltration
  | DataVolumeExceeded real int
  | UniqueFileAccessExceeded nat

record ExfiltrationDetector =
  data_volumes :: "string \<Rightarrow> (real \<times> int) list"
  unique_targets :: "string \<Rightarrow> string set"
  max_data_volume_mb :: int
  max_unique_files :: int
  max_unique_ips :: int
  ed_window_seconds :: int

definition ExfiltrationDetector_init :: ExfiltrationDetector where
  "ExfiltrationDetector_init =
     \<lparr> data_volumes = (\<lambda>_. []), unique_targets = (\<lambda>_. {}),
       max_data_volume_mb = 100, max_unique_files = 1000, max_unique_ips = 20,
       ed_window_seconds = 300 \<rparr>"

definition record_data_access :: "ExfiltrationDetector \<Rightarrow> string \<Rightarrow> string \<Rightarrow> int \<Rightarrow> real
    \<Rightarrow> (bool \<times> exfil_reason) \<times> ExfiltrationDetector" where
  "record_data_access ed agent tgt bytes_accessed now =
     (let cutoff = now - real_of_int (ed_window_seconds ed);
          vols = data_volumes ed agent @ [(now, bytes_accessed)];
          tgts = insert tgt (unique_targets ed agent);
          kept = filter (\<lambda>e. fst e > cutoff) vols;
          ed1 = ed\<lparr> data_volumes := (data_volumes ed)(agent := kept),
                     unique_targets := (unique_targets ed)(agent := tgts) \<rparr>;
          total_bytes = sum_list (map snd kept);
          total_mb = real_of_int total_bytes / (1024 * 1024)
      in if total_mb > real_of_int (max_data_volume_mb ed1) then
           ((True, DataVolumeExceeded total_mb (ed_window_seconds ed1)), ed1)
         else if int (card tgts) > max_unique_files ed1 then
           ((True, UniqueFileAccessExceeded (card tgts)), ed1)
         else ((False, NoExfiltration), ed1))"

text \<open>
  The two quantities \<open>record_data_access\<close> compares against its caps, as they stand in
  the detector after a call.
\<close>

definition checked_bytes :: "ExfiltrationDetector \<Rightarrow> string \<Rightarrow> int" where
  "checked_bytes ed agent = sum_list (map snd (data_volumes ed agent))"

definition checked_target_count :: "ExfiltrationDetector \<Rightarrow> string \<Rightarrow> nat" where
  "checked_target_count ed agent = card (unique_targets ed agent)"

section \<open>sliding\_window.py\<close>

datatype WindowSize = HOUR_1 | HOUR_6 | HOUR_24

fun window_value :: "WindowSize \<Rightarrow> int" where
  "window_value HOUR_1 = 3600"
| "window_value HOUR_6 = 21600"
| "window_value HOUR_24 = 86400"

datatype MetricType =
  BYTES_OUT | BYTES_IN | RECORDS_ACCESSED | API_CALLS | FILES_READ | CONNECTIONS

record WindowThreshold =
  wt_metric :: MetricType
  wt_window :: WindowSize
  wt_limit :: real
  wt_action :: string

definition mk_window_threshold :: "MetricType \<Rightarrow> WindowSize \<Rightarrow> real \<Rightarrow> string \<Rightarrow> WindowThreshold" where
  "mk_window_threshold m w l a = \<lparr> wt_metric = m, wt_window = w, wt_limit = l, wt_action = a \<rparr>"

definition DEFAULT_WINDOW_THRESHOLDS :: "WindowThreshold list" where
  "DEFAULT_WINDOW_THRESHOLDS =
     [ mk_window_threshold BYTES_OUT HOUR_1 10000000 ''alert'',
       mk_window_threshold BYTES_OUT HOUR_24 50000000 ''kill'',
       mk_window_threshold RECORDS_ACCESSED HOUR_1 1000 ''alert'',
       mk_window_threshold RECORDS_ACCESSED HOUR_24 10000 ''kill'',
       mk_window_threshold API_CALLS HOUR_1 500 ''alert'',
       mk_window_threshold FILES_READ HOUR_24 1000 ''alert'',
       mk_window_threshold CONNECTIONS HOUR_1 100 ''alert'' ]"

record WindowEvent =
  ev_timestamp :: real
  ev_value :: real

text \<open>
  The breach record of this module (also called \<open>ThresholdBreach\<close> in the source); its
  \<open>timestamp\<close> default is left out.
\<close>

record WindowBreach =
  wb_metric :: MetricType
  wb_window :: WindowSize
  wb_current_value :: real
  wb_limit :: real
  wb_action :: string
  wb_agent_id :: string

text \<open>
  \<open>x or time.time()\<close> on an optional float: \<open>None\<close> and \<open>0.0\<close> are both falsy and give
  the clock.
\<close>

definition or_now :: "real option \<Rightarrow> real \<Rightarrow> real" where
  "or_now t now = (case t of None \<Rightarrow> now | Some v \<Rightarrow> if v = 0 then now else v)"

subsection \<open>SlidingWindow\<close>

record SlidingWindow =
  window_size :: WindowSize
  events :: "WindowEvent list"
  total :: real

definition SlidingWindow_init :: "WindowSize \<Rightarrow> SlidingWindow" where
  "SlidingWindow_init ws = \<lparr> window_size = ws, events = [], total = 0 \<rparr>"

text \<open>The \<open>while\<close> loop of \<open>_prune\<close>: pop from the left while the oldest event is too old.\<close>

fun prune_loop :: "real \<Rightarrow> WindowEvent list \<Rightarrow> real \<Rightarrow> WindowEvent list \<times> real" where
  "prune_loop cutoff [] tot = ([], tot)"
| "prune_loop cutoff (e # es) tot =
     (if ev_timestamp e < cutoff then prune_loop cutoff es (tot - ev_value e)
      else (e # es, tot))"

definition prune :: "SlidingWindow \<Rightarrow> real \<Rightarrow> SlidingWindow" where
  "prune sw current_time =
     (let cutoff = current_time - real_of_int (window_value (window_size sw))
      in case prune_loop cutoff (events sw) (total sw) of
           (es, tot) \<Rightarrow> sw\<lparr> events := es, total := tot \<rparr>)"

definition sw_add :: "SlidingWindow \<Rightarrow> real \<Rightarrow> real option \<Rightarrow> real \<Rightarrow> SlidingWindow" where
  "sw_add sw v timestamp now =
     (let ts = or_now timestamp now;
          sw1 = sw\<lparr> events := events sw @ [\<lparr> ev_timestamp = ts, ev_value = v \<rparr>],
                     total := total sw + v \<rparr>
      in prune sw1 ts)"

definition sw_get_total :: "SlidingWindow \<Rightarrow> real option \<Rightarrow> real \<Rightarrow> real \<times> SlidingWindow" where
  "sw_get_total sw current_time now =
     (let ts = or_now current_time now; sw1 = prune sw ts in (total sw1, sw1))"

subsection \<open>MetricTracker\<close>

record MetricTracker =
  mt_metric :: MetricType
  windows :: "WindowSize \<Rightarrow> SlidingWindow"

definition MetricTracker_init :: "MetricType \<Rightarrow> MetricTracker" where
  "MetricTracker_init m = \<lparr> mt_metric = m, windows = SlidingWindow_init \<rparr>"

definition mt_record :: "MetricTracker \<Rightarrow> real \<Rightarrow> real option \<Rightarrow> real \<Rightarrow> MetricTracker" where
  "mt_record mt v timestamp now =
     (let ts = or_now timestamp now
      in mt\<lparr> windows := (\<lambda>w. sw_add (windows mt w) v (Some ts) now) \<rparr>)"

definition mt_get_total :: "MetricTracker \<Rightarrow> WindowSize \<Rightarrow> real option \<Rightarrow> real
    \<Rightarrow> real \<times> MetricTracker" where
  "mt_get_total mt ws ts now =
     (case sw_get_total (windows mt ws) ts now of
        (tot, sw1) \<Rightarrow> (tot, mt\<lparr> windows := (windows mt)(ws := sw1) \<rparr>))"

subsection \<open>SlidingWindowDetector\<close>

record SlidingWindowDetector =
  sd_agent_id :: string
  sd_thresholds :: "WindowThreshold list"
  sd_on_breach :: bool
  trackers :: "MetricType \<Rightarrow> MetricTracker"
  breaches :: "WindowBreach list"
  breach_count :: nat
  sd_callback_log :: "WindowBreach list"

definition SlidingWindowDetector_init :: "string \<Rightarrow> WindowThreshold list option \<Rightarrow> bool
    \<Rightarrow> SlidingWindowDetector" where
  "SlidingWindowDetector_init agent ths ob =
     \<lparr> sd_agent_id = agent,
       sd_thresholds = (case ths of None \<Rightarrow> DEFAULT_WINDOW_THRESHOLDS
                        | Some l \<Rightarrow> if l = [] then DEFAULT_WINDOW_THRESHOLDS else l),
       sd_on_breach = ob,
       trackers = MetricTracker_init,
       breaches = [], breach_count = 0, sd_callback_log = [] \<rparr>"

definition sd_record :: "SlidingWindowDetector \<Rightarrow> MetricType \<Rightarrow> real \<Rightarrow> real option \<Rightarrow> real
    \<Rightarrow> SlidingWindowDetector" where
  "sd_record sd m v ts now =
     sd\<lparr> trackers := (trackers sd)(m := mt_record (trackers sd m) v ts now) \<rparr>"

text \<open>The body of the \<open>for threshold in self.thresholds\<close> loop, and the loop.\<close>

definition check_one :: "real \<Rightarrow> real \<Rightarrow> WindowThreshold \<Rightarrow> WindowBreach list \<times> SlidingWindowDetector
    \<Rightarrow> WindowBreach list \<times> SlidingWindowDetector" where
  "check_one current_time now threshold st =
     (case st of (found, sd) \<Rightarrow>
        (case mt_get_total (trackers sd (wt_metric threshold)) (wt_window threshold)
                (Some current_time) now of
           (current, tracker1) \<Rightarrow>
             (let sd1 = sd\<lparr> trackers := (trackers sd)(wt_metric threshold := tracker1) \<rparr> in
              if current > wt_limit threshold then
                (let breach = \<lparr> wb_metric = wt_metric threshold, wb_window = wt_window threshold,
                                wb_current_value = current, wb_limit = wt_limit threshold,
                                wb_action = wt_action threshold, wb_agent_id = sd_agent_id sd1 \<rparr>;
                     sd2 = sd1\<lparr> breaches := breaches sd1 @ [breach],
                                 breach_count := breach_count sd1 + 1 \<rparr>;
                     sd3 = (if sd_on_breach sd2
                            then sd2\<lparr> sd_callback_log := sd_callback_log sd2 @ [breach] \<rparr>
                            else sd2)
                 in (found @ [breach], sd3))
              else (found, sd1))))"

definition check_thresholds :: "SlidingWindowDetector \<Rightarrow> real option \<Rightarrow> real
    \<Rightarrow> WindowBreach list \<times> SlidingWindowDetector" where
  "check_thresholds sd ts now =
     (let current_time = or_now ts now
      in fold (check_one current_time now) (sd_thresholds sd) ([], sd))"

text \<open>
  The total of the events held for one (metric, window) pair that lie in the window ending
  at \<open>t\<close>.
\<close>

definition in_window_total :: "SlidingWindowDetector \<Rightarrow> MetricType \<Rightarrow> WindowSize \<Rightarrow> real \<Rightarrow> real" where
  "in_window_total sd m w t =
     sum_list (map ev_value
       (filter (\<lambda>e. ev_timestamp e \<ge> t - real_of_int (window_value w))
               (events (windows (trackers sd m) w))))"

definition breach_of :: "SlidingWindowDetector \<Rightarrow> real \<Rightarrow> WindowThreshold \<Rightarrow> WindowBreach" where
  "breach_of sd t th =
     \<lparr> wb_metric = wt_metric th, wb_window = wt_window th,
       wb_current_value = in_window_total sd (wt_metric th) (wt_window th) t,
       wb_limit = wt_limit th, wb_action = wt_action th, wb_agent_id = sd_agent_id sd \<rparr>"

text \<open>
  Well-formed detector states: every window carries its own size, its running total is
  the sum of its events, and its events are in order of time. The initial state is
  well-formed and \<open>sd_record\<close> at non-decreasing instants keeps it so.
\<close>

definition window_ok :: "WindowSize \<Rightarrow> SlidingWindow \<Rightarrow> bool" where
  "window_ok w sw =
     (window_size sw = w \<and> total sw = sum_list (map ev_value (events sw))
      \<and> sorted (map ev_timestamp (events sw)))"

definition detector_ok :: "SlidingWindowDetector \<Rightarrow> bool" where
  "detector_ok sd = (\<forall>m w. window_ok w (windows (trackers sd m) w))"

definition latest :: "SlidingWindowDetector \<Rightarrow> MetricType \<Rightarrow> real \<Rightarrow> bool" where
  "latest sd m t = (\<forall>w. \<forall>e \<in> set (events (windows (trackers sd m) w)). ev_timestamp e \<le> t)"

subsection \<open>Histories of calls\<close>

text \<open>
  A history of calls on one detector: each call is made at an instant, and is either
  \<open>record(metric, value)\<close> or \<open>check_thresholds()\<close>. The call is given its instant both as
  the explicit timestamp and as the clock, so that it is the instant used whether the
  caller passes a timestamp or not. \<open>run_ops\<close> makes the calls in the order of the list.
\<close>

datatype detector_op = Record MetricType real | Check

fun apply_op :: "SlidingWindowDetector \<Rightarrow> real \<times> detector_op \<Rightarrow> SlidingWindowDetector" where
  "apply_op sd (t, Record m v) = sd_record sd m v (Some t) t"
| "apply_op sd (t, Check) = snd (check_thresholds sd (Some t) t)"

fun run_ops :: "SlidingWindowDetector \<Rightarrow> (real \<times> detector_op) list \<Rightarrow> SlidingWindowDetector" where
  "run_ops sd [] = sd"
| "run_ops sd (c # cs) = run_ops (apply_op sd c) cs"

text \<open>
  What the claims call the in-window total, read off the history of calls and not off the
  detector's state: the sum of the values recorded for the metric at the instants of the
  window of the given length that ends at \<open>T\<close>. The lengths are the claim's one, six and
  twenty-four hours.
\<close>

definition window_length :: "WindowSize \<Rightarrow> real" where
  "window_length w = (case w of HOUR_1 \<Rightarrow> 1 * 3600 | HOUR_6 \<Rightarrow> 6 * 3600 | HOUR_24 \<Rightarrow> 24 * 3600)"

fun recorded_value :: "MetricType \<Rightarrow> real \<times> detector_op \<Rightarrow> real" where
  "recorded_value m (t, Record m' v) = (if m' = m then v else 0)"
| "recorded_value m (t, Check) = 0"

definition history_total :: "(real \<times> detector_op) list \<Rightarrow> MetricType \<Rightarrow> WindowSize \<Rightarrow> real \<Rightarrow> real" where
  "history_total cs m w T =
     sum_list (map (recorded_value m)
       (filter (\<lambda>c. T - window_length w \<le> fst c \<and> fst c \<le> T) cs))"

text \<open>The breach that a threshold is due at \<open>T\<close> after the history \<open>cs\<close>.\<close>

definition expected_breach :: "string \<Rightarrow> (real \<times> detector_op) list \<Rightarrow> real \<Rightarrow> WindowThreshold
    \<Rightarrow> WindowBreach" where
  "expected_breach agent cs T th =
     \<lparr> wb_metric = wt_metric th, wb_window = wt_window th,
       wb_current_value = history_total cs (wt_metric th) (wt_window th) T,
       wb_limit = wt_limit th, wb_action = wt_action th, wb_agent_id = agent \<rparr>"

section \<open>hard\_kill.py\<close>

subsection \<open>The operating system, as the module sees it\<close>

text \<open>
  The module reaches the operating system through \<open>os.kill\<close>, \<open>time.time\<close>,
  \<open>time.sleep\<close> and the enumeration of child processes. The model of it (the Unix
  branch) is a world with a clock, a process table, the list of children that
  \<open>_get_children\<close> finds for a process, and a log of every \<open>os.kill\<close> call that carried
  \<open>SIGTERM\<close> or \<open>SIGKILL\<close>. A process is described by whether the caller may signal it,
  by how long after a delivered \<open>SIGTERM\<close> or \<open>SIGKILL\<close> it exits (\<open>None\<close>: it ignores
  or survives the signal), and by the instant of its exit once that is settled. The clock
  advances only in \<open>time.sleep\<close>, by the length slept.
\<close>

datatype signal = SIGTERM | SIGKILL

datatype os_error = ProcessLookupError | PermissionError

record process =
  signalable :: bool
  term_delay :: "real option"
  kill_delay :: "real option"
  exit_at :: "real option"

record world =
  clock :: real
  procs :: "int \<Rightarrow> process option"
  children :: "int \<Rightarrow> int list"
  signals :: "(real \<times> signal \<times> int) list"

definition exited :: "process \<Rightarrow> real \<Rightarrow> bool" where
  "exited pr t = (case exit_at pr of None \<Rightarrow> False | Some e \<Rightarrow> e \<le> t)"

definition schedule_exit :: "process \<Rightarrow> real \<Rightarrow> real option \<Rightarrow> process" where
  "schedule_exit pr t delay =
     (case delay of
        None \<Rightarrow> pr
      | Some d \<Rightarrow> pr\<lparr> exit_at := Some (case exit_at pr of None \<Rightarrow> t + d
                                       | Some e \<Rightarrow> min e (t + d)) \<rparr>)"

text \<open>
  \<open>os.kill(pid, sig)\<close>; the signal \<open>None\<close> is signal 0, which only probes. The result
  is the exception raised, if any.
\<close>

definition os_kill :: "int \<Rightarrow> signal option \<Rightarrow> world \<Rightarrow> os_error option \<times> world" where
  "os_kill p sg w =
     (let w1 = (case sg of None \<Rightarrow> w
                | Some s \<Rightarrow> w\<lparr> signals := signals w @ [(clock w, s, p)] \<rparr>)
      in case procs w p of
           None \<Rightarrow> (Some ProcessLookupError, w1)
         | Some pr \<Rightarrow>
             if exited pr (clock w) then (Some ProcessLookupError, w1)
             else if \<not> signalable pr then (Some PermissionError, w1)
             else (case sg of
                     None \<Rightarrow> (None, w1)
                   | Some SIGTERM \<Rightarrow>
                       (None, w1\<lparr> procs := (procs w1)(p := Some (schedule_exit pr (clock w) (term_delay pr))) \<rparr>)
                   | Some SIGKILL \<Rightarrow>
                       (None, w1\<lparr> procs := (procs w1)(p := Some (schedule_exit pr (clock w) (kill_delay pr))) \<rparr>)))"

definition sleep :: "real \<Rightarrow> world \<Rightarrow> world" where
  "sleep d w = w\<lparr> clock := clock w + d \<rparr>"

subsection \<open>Kill reports and process utilities\<close>

datatype KillResult =
  SUCCESS | ALREADY_DEAD | SOFT_KILL_SUCCESS | HARD_KILL_SUCCESS | FAILED | PERMISSION_DENIED | ZOMBIE

text \<open>\<open>KillReport\<close>, without its \<open>timestamp\<close> (set in \<open>__post_init__\<close>, read by no code).\<close>

record KillReport =
  pid :: int
  result :: KillResult
  soft_signal_sent :: bool
  hard_signal_sent :: bool
  time_to_death_ms :: "real option"
  error :: "string option"

text \<open>\<open>_is_alive_unix\<close>: a lookup error means dead, a permission error means alive.\<close>

definition is_process_alive :: "int \<Rightarrow> world \<Rightarrow> bool" where
  "is_process_alive p w =
     (case fst (os_kill p None w) of
        None \<Rightarrow> True
      | Some ProcessLookupError \<Rightarrow> False
      | Some PermissionError \<Rightarrow> True)"

subsection \<open>HardKill\<close>

record HardKill =
  soft_timeout :: real
  verify_interval :: real
  max_verify_attempts :: int

definition HardKill_init :: "real \<Rightarrow> real \<Rightarrow> int \<Rightarrow> HardKill" where
  "HardKill_init soft_timeout_seconds verify_interval_ms attempts =
     \<lparr> soft_timeout = soft_timeout_seconds, verify_interval = verify_interval_ms / 1000,
       max_verify_attempts = attempts \<rparr>"

definition HardKill_default :: HardKill where
  "HardKill_default = HardKill_init 2 100 10"

definition send_soft_kill :: "int \<Rightarrow> world \<Rightarrow> bool \<times> world" where
  "send_soft_kill p w =
     (case os_kill p (Some SIGTERM) w of
        (None, w1) \<Rightarrow> (True, w1)
      | (Some ProcessLookupError, w1) \<Rightarrow> (True, w1)
      | (Some PermissionError, w1) \<Rightarrow> (False, w1))"

definition send_hard_kill :: "int \<Rightarrow> world \<Rightarrow> bool \<times> world" where
  "send_hard_kill p w =
     (case os_kill p (Some SIGKILL) w of
        (None, w1) \<Rightarrow> (True, w1)
      | (Some ProcessLookupError, w1) \<Rightarrow> (True, w1)
      | (Some PermissionError, w1) \<Rightarrow> (False, w1))"

text \<open>
  The \<open>while\<close> loop of \<open>_wait_for_death\<close>. The result \<open>None\<close> stands for a call that
  returns nothing: the loop runs forever, or \<open>time.sleep\<close> raises on a negative length.
\<close>

partial_function (option) wait_for_death_loop ::
    "HardKill \<Rightarrow> int \<Rightarrow> real \<Rightarrow> real \<Rightarrow> world \<Rightarrow> (bool \<times> world) option" where
  "wait_for_death_loop hk p start timeout w =
     (if clock w - start < timeout then
        (if \<not> is_process_alive p w then Some (True, w)
         else if verify_interval hk < 0 then None
         else wait_for_death_loop hk p start timeout (sleep (verify_interval hk) w))
      else Some (False, w))"

definition wait_for_death :: "HardKill \<Rightarrow> int \<Rightarrow> real \<Rightarrow> world \<Rightarrow> (bool \<times> world) option" where
  "wait_for_death hk p timeout w = wait_for_death_loop hk p (clock w) timeout w"

text \<open>The \<open>for\<close> loop of \<open>_verify_death\<close>, with its final check.\<close>

fun verify_death_loop :: "HardKill \<Rightarrow> int \<Rightarrow> nat \<Rightarrow> world \<Rightarrow> (bool \<times> world) option" where
  "verify_death_loop hk p 0 w = Some (\<not> is_process_alive p w, w)"
| "verify_death_loop hk p (Suc n) w =
     (if \<not> is_process_alive p w then Some (True, w)
      else if verify_interval hk < 0 then None
      else verify_death_loop hk p n (sleep (verify_interval hk) w))"

definition verify_death :: "HardKill \<Rightarrow> int \<Rightarrow> world \<Rightarrow> (bool \<times> world) option" where
  "verify_death hk p w = verify_death_loop hk p (nat (max_verify_attempts hk)) w"

definition kill :: "HardKill \<Rightarrow> int \<Rightarrow> bool \<Rightarrow> world \<Rightarrow> (KillReport \<times> world) option" where
  "kill hk p escalate w =
     (let start_time = clock w in
      if \<not> is_process_alive p w then
        Some (\<lparr> pid = p, result = ALREADY_DEAD, soft_signal_sent = False,
                hard_signal_sent = False, time_to_death_ms = Some 0, error = None \<rparr>, w)
      else
        (case send_soft_kill p w of
           (soft_success, w1) \<Rightarrow>
             if \<not> soft_success then
               Some (\<lparr> pid = p, result = PERMISSION_DENIED, soft_signal_sent = False,
                       hard_signal_sent = False, time_to_death_ms = None,
                       error = Some ''Failed to send SIGTERM - check permissions'' \<rparr>, w1)
             else
               (case wait_for_death hk p (soft_timeout hk) w1 of
                  None \<Rightarrow> None
                | Some (died, w2) \<Rightarrow>
                    if died then
                      Some (\<lparr> pid = p, result = SOFT_KILL_SUCCESS, soft_signal_sent = True,
                              hard_signal_sent = False,
                              time_to_death_ms = Some ((clock w2 - start_time) * 1000),
                              error = None \<rparr>, w2)
                    else if \<not> escalate then
                      Some (\<lparr> pid = p, result = FAILED, soft_signal_sent = True,
                              hard_signal_sent = False, time_to_death_ms = None,
                              error = Some ''Process did not respond to SIGTERM and escalation is disabled'' \<rparr>,
                            w2)
                    else
                      (case send_hard_kill p w2 of
                         (hard_success, w3) \<Rightarrow>
                           if \<not> hard_success then
                             Some (\<lparr> pid = p, result = FAILED, soft_signal_sent = True,
                                     hard_signal_sent = False, time_to_death_ms = None,
                                     error = Some ''Failed to send SIGKILL'' \<rparr>, w3)
                           else
                             (case verify_death hk p w3 of
                                None \<Rightarrow> None
                              | Some (gone, w4) \<Rightarrow>
                                  if gone then
                                    Some (\<lparr> pid = p, result = HARD_KILL_SUCCESS,
                                            soft_signal_sent = True, hard_signal_sent = True,
                                            time_to_death_ms = Some ((clock w4 - start_time) * 1000),
                                            error = None \<rparr>, w4)
                                  else
                                    Some (\<lparr> pid = p, result = ZOMBIE,
                                            soft_signal_sent = True, hard_signal_sent = True,
                                            time_to_death_ms = Some ((clock w4 - start_time) * 1000),
                                            error = Some ''Process survived SIGKILL - may be zombie or kernel-protected'' \<rparr>,
                                          w4))))))"

subsection \<open>BatchKill\<close>

fun kill_each :: "HardKill \<Rightarrow> int list \<Rightarrow> world \<Rightarrow> (KillReport list \<times> world) option" where
  "kill_each hk [] w = Some ([], w)"
| "kill_each hk (p # ps) w =
     (case kill hk p True w of
        None \<Rightarrow> None
      | Some (r, w1) \<Rightarrow>
          (case kill_each hk ps w1 of
             None \<Rightarrow> None
           | Some (rs, w2) \<Rightarrow> Some (r # rs, w2)))"

text \<open>\<open>kill_tree\<close>: the children found at the start, last found first, then the root.\<close>

definition kill_tree :: "HardKill \<Rightarrow> int \<Rightarrow> world \<Rightarrow> (KillReport list \<times> world) option" where
  "kill_tree hk p w = kill_each hk (rev (children w p) @ [p]) w"

subsection \<open>AgentTerminator\<close>

record AgentTerminator =
  hard_kill :: HardKill
  agents :: "(string \<times> int) list"
  kill_history :: "KillReport list"

definition AgentTerminator_init :: AgentTerminator where
  "AgentTerminator_init = \<lparr> hard_kill = HardKill_default, agents = [], kill_history = [] \<rparr>"

definition register_agent :: "AgentTerminator \<Rightarrow> string \<Rightarrow> int \<Rightarrow> AgentTerminator" where
  "register_agent tm agent_id p = tm\<lparr> agents := AList.update agent_id p (agents tm) \<rparr>"

definition unregister_agent :: "AgentTerminator \<Rightarrow> string \<Rightarrow> AgentTerminator" where
  "unregister_agent tm agent_id = tm\<lparr> agents := AList.delete agent_id (agents tm) \<rparr>"

text \<open>
  \<open>kill_agent\<close>. \<open>if report:\<close> tests a \<open>KillReport\<close> instance, which is truthy whatever
  its fields are (the dataclass defines neither \<open>__bool__\<close> nor \<open>__len__\<close>), so the
  test only separates a report from \<open>None\<close>.
\<close>

definition kill_agent :: "AgentTerminator \<Rightarrow> string \<Rightarrow> bool \<Rightarrow> world
    \<Rightarrow> (KillReport option \<times> AgentTerminator \<times> world) option" where
  "kill_agent tm agent_id kill_children w =
     (case map_of (agents tm) agent_id of
        None \<Rightarrow> Some (None, tm, w)
      | Some p \<Rightarrow>
          (case (if kill_children then
                   (case kill_tree (hard_kill tm) p w of
                      None \<Rightarrow> None
                    | Some (reports, w1) \<Rightarrow>
                        Some (if reports = [] then None else Some (last reports), w1))
                 else
                   (case kill (hard_kill tm) p True w of
                      None \<Rightarrow> None
                    | Some (r, w1) \<Rightarrow> Some (Some r, w1))) of
             None \<Rightarrow> None
           | Some (None, w1) \<Rightarrow> Some (None, tm, w1)
           | Some (Some report, w1) \<Rightarrow>
               Some (Some report,
                     unregister_agent (tm\<lparr> kill_history := kill_history tm @ [report] \<rparr>) agent_id,
                     w1)))"

subsection \<open>Observations on a run of \<open>kill\<close>\<close>

text \<open>
  How many \<open>os.kill\<close> calls carried \<open>SIGTERM\<close> for a process, and the instants of the
  calls that carried \<open>SIGKILL\<close>.
\<close>

definition term_calls :: "int \<Rightarrow> world \<Rightarrow> nat" where
  "term_calls p w = length (filter (\<lambda>e. fst (snd e) = SIGTERM \<and> snd (snd e) = p) (signals w))"

definition kill_call_times :: "int \<Rightarrow> world \<Rightarrow> real list" where
  "kill_call_times p w = map fst (filter (\<lambda>e. fst (snd e) = SIGKILL \<and> snd (snd e) = p) (signals w))"

text \<open>
  Some liveness poll of the grace period finds the process dead. The polls of
  \<open>_wait_for_death\<close> happen at the instants \<open>clock w + k * verify_interval\<close> that lie
  less than the soft timeout after its start; \<open>w\<close> is the world in which the wait starts.
\<close>

definition poll_sees_death :: "HardKill \<Rightarrow> int \<Rightarrow> world \<Rightarrow> bool" where
  "poll_sees_death hk p w =
     (\<exists>k. real k * verify_interval hk < soft_timeout hk \<and>
          \<not> is_process_alive p (w\<lparr> clock := clock w + real k * verify_interval hk \<rparr>))"

section \<open>network\_kill.py\<close>

datatype NetworkKillResult =
    NK_SUCCESS | NK_PARTIAL | NK_FAILED | NK_PERMISSION_DENIED | NK_NOT_SUPPORTED
  | NK_ALREADY_BLOCKED | NK_NOT_BLOCKED


subsection \<open>Python string operations\<close>










subsection \<open>The iptables command\<close>










subsection \<open>LinuxFirewall\<close>











subsection \<open>The pfctl command and MacOSFirewall\<close>









section \<open>Concrete inputs\<close>

text \<open>
  A stand-in for the two library functions, for evaluating the model on concrete inputs:
  the digest is the text itself and a float prints as a fixed mark.
\<close>

definition toy_lib :: pylib where
  "toy_lib = \<lparr> sha256_hexdigest = (\<lambda>s. s), str_float = (\<lambda>r. ''f'') \<rparr>"

definition closed_handler :: FailModeHandler where
  "closed_handler = FailModeHandler_init toy_lib 0 None None"

definition cached_handler :: FailModeHandler where
  "cached_handler =
     cache_result toy_lib 10
       (FailModeHandler_init toy_lib 0 (Some (FailModeConfig_default\<lparr> mode := CACHED \<rparr>)) None)
       ''file_read'' ''/etc/passwd'' False 85 None"

text \<open>The entry \<open>cached_handler\<close> holds: cached at 10 with the default TTL of 60.\<close>

definition passwd_policy :: CachedPolicy where
  "passwd_policy =
     \<lparr> action = ''file_read'', target = ''/etc/passwd'', allowed = False, risk_score = 85,
       cached_at = 10, expires_at = 70, policy_hash = ''file_read:/etc/p'', metadata = [] \<rparr>"

text \<open>
  A CACHED-mode handler whose only cached decision is for the action \<open>http::get\<close> on the
  target \<open>example.com\<close>, allowed with risk 0, cached at 10.
\<close>

definition collide_handler :: "pylib \<Rightarrow> FailModeHandler" where
  "collide_handler lib =
     cache_result lib 10
       (FailModeHandler_init lib 0 (Some (FailModeConfig_default\<lparr> mode := CACHED \<rparr>)) None)
       ''http::get'' ''example.com'' True 0 None"

text \<open>Two small threshold configurations and the engines built from them.\<close>

definition two_cfg :: ThresholdConfig where
  "two_cfg = mk_threshold ''Two Per Minute'' ''probe'' 2 60 BLOCK 2"

definition zero_cfg :: ThresholdConfig where
  "zero_cfg = mk_threshold ''Nothing Allowed'' ''probe'' 0 60 BLOCK 2"

definition two_engine :: BehavioralThresholds where
  "two_engine = BehavioralThresholds_init (Some [two_cfg]) False False"

definition zero_engine :: BehavioralThresholds where
  "zero_engine = BehavioralThresholds_init (Some [zero_cfg]) False False"

text \<open>
  Histories on a detector with the default thresholds. Twelve records of 100,000 bytes
  out, one every five minutes; the same followed by 9,000,000 bytes at the last instant;
  six records of 9,000,000 bytes out spread over fourteen hours, with records of another
  metric and a check in between; and two records whose timestamps go backwards.
\<close>

definition fresh_detector :: SlidingWindowDetector where
  "fresh_detector = SlidingWindowDetector_init ''agent-001'' None False"

definition drip_ops :: "(real \<times> detector_op) list" where
  "drip_ops =
     [(300, Record BYTES_OUT 100000), (600, Record BYTES_OUT 100000),
      (900, Record BYTES_OUT 100000), (1200, Record BYTES_OUT 100000),
      (1500, Record BYTES_OUT 100000), (1800, Record BYTES_OUT 100000),
      (2100, Record BYTES_OUT 100000), (2400, Record BYTES_OUT 100000),
      (2700, Record BYTES_OUT 100000), (3000, Record BYTES_OUT 100000),
      (3300, Record BYTES_OUT 100000), (3600, Record BYTES_OUT 100000)]"

definition flood_ops :: "(real \<times> detector_op) list" where
  "flood_ops = drip_ops @ [(3600, Record BYTES_OUT 9000000)]"

definition burst_ops :: "(real \<times> detector_op) list" where
  "burst_ops =
     [(1000, Record BYTES_OUT 9000000), (10000, Record BYTES_OUT 9000000),
      (15000, Record API_CALLS 400), (20000, Record BYTES_OUT 9000000),
      (30000, Record BYTES_OUT 9000000), (30000, Check),
      (40000, Record BYTES_OUT 9000000), (50000, Record BYTES_OUT 9000000)]"

definition backwards_ops :: "(real \<times> detector_op) list" where
  "backwards_ops = [(5000, Record BYTES_OUT 100), (1000, Record BYTES_OUT 20000000)]"

text \<open>
  A killer with a soft timeout of 0.25 s polled every 0.1 s (polls at 0, 0.1 and 0.2 s),
  and worlds with one process, number 4242: one that exits 0.15 s after \<open>SIGTERM\<close>, one
  that ignores \<open>SIGTERM\<close>, and one that the caller may not signal.
\<close>

definition quick_hk :: HardKill where
  "quick_hk = HardKill_init (1/4) 100 10"

definition one_process :: "process \<Rightarrow> world" where
  "one_process pr =
     \<lparr> clock = 0, procs = (\<lambda>_. None)(4242 := Some pr), children = (\<lambda>_. []), signals = [] \<rparr>"



definition protected_world :: world where
  "protected_world = one_process
     \<lparr> signalable = False, term_delay = Some 0, kill_delay = Some 0, exit_at = None \<rparr>"


definition immortal_world :: world where
  "immortal_world = one_process
     \<lparr> signalable = True, term_delay = None, kill_delay = None, exit_at = None \<rparr>"

definition one_agent :: AgentTerminator where
  "one_agent = register_agent AgentTerminator_init ''agent-1'' 4242"



chapter \<open>Properties\<close>

section \<open>Fail-mode handler and policy cache\<close>

lemma fail_closed_result:
  "fst (handle_fail_closed h a t msg) = (False, ReasonFailClosed a msg, 100)"
  by (simp add: handle_fail_closed_def Let_def)

text \<open>
  C3. A handler built without a configuration is in CLOSED mode, and in CLOSED mode
  \<open>on_validation_failure\<close> answers blocked with risk 100, whatever the action, the target
  and the error are.
\<close>

theorem C3_default_mode_closed_blocks:
  "mode (fh_config (FailModeHandler_init lib t0 None file)) = CLOSED \<and>
   (mode (fh_config h) = CLOSED \<longrightarrow>
      (case on_validation_failure lib now h a t err of
         ((al, why, risk), h') \<Rightarrow> al = False \<and> risk = 100))"
proof
  show "mode (fh_config (FailModeHandler_init lib t0 None file)) = CLOSED"
    by (simp add: FailModeHandler_init_def FailModeConfig_default_def Let_def)
next
  show "mode (fh_config h) = CLOSED \<longrightarrow>
      (case on_validation_failure lib now h a t err of
         ((al, why, risk), h') \<Rightarrow> al = False \<and> risk = 100)"
  proof
    assume closed: "mode (fh_config h) = CLOSED"
    have "fst (on_validation_failure lib now h a t err) =
            (False, ReasonFailClosed a (case err of None \<Rightarrow> ''Unknown error'' | Some e \<Rightarrow> e), 100)"
      using closed by (simp add: on_validation_failure_def Let_def fail_closed_result)
    then show "case on_validation_failure lib now h a t err of
         ((al, why, risk), h') \<Rightarrow> al = False \<and> risk = 100"
      by (auto split: prod.splits)
  qed
qed

theorem C3_witness:
  "mode (fh_config closed_handler) = CLOSED \<and>
   fst (fst (on_validation_failure toy_lib 5 closed_handler ''file_read'' ''/etc/passwd''
               (Some ''Validation API unreachable''))) = False \<and>
   snd (snd (fst (on_validation_failure toy_lib 5 closed_handler ''file_read'' ''/etc/passwd''
               (Some ''Validation API unreachable'')))) = 100"
proof -
  have m: "mode (fh_config closed_handler) = CLOSED"
    using C3_default_mode_closed_blocks [of toy_lib 0 None]
    by (simp add: closed_handler_def)
  from C3_default_mode_closed_blocks [of toy_lib 0 None closed_handler 5 "''file_read''"
       "''/etc/passwd''" "Some ''Validation API unreachable''"] m
  show ?thesis by (auto split: prod.splits)
qed

lemma cache_get_hit:
  assumes "usable_entry lib now pc a t p"
  shows "cache_get lib now pc a t = (Some p, pc\<lparr> hits := hits pc + 1 \<rparr>)"
  using assms by (simp add: usable_entry_def cache_get_def Let_def)

lemma cache_get_miss:
  assumes "\<nexists>p. usable_entry lib now pc a t p"
  shows "fst (cache_get lib now pc a t) = None"
    and "map_of (cache (snd (cache_get lib now pc a t))) (make_key a t) = None"
    and "k \<noteq> make_key a t \<Longrightarrow>
           map_of (cache (snd (cache_get lib now pc a t))) k = map_of (cache pc) k"
  using assms
  by (auto simp: usable_entry_def cache_get_def Let_def delete_conv split: option.splits)

lemma fail_cached_hit:
  assumes "usable_entry lib now (fh_cache h) a t p"
  shows "handle_fail_cached lib now h a t msg =
           ((allowed p, ReasonCachedPolicy (now - cached_at p) (allowed p) (risk_score p),
             risk_score p),
            h\<lparr> fh_cache := (fh_cache h)\<lparr> hits := hits (fh_cache h) + 1 \<rparr>,
                fail_cached_count := fail_cached_count h + 1 \<rparr>)"
  by (simp add: handle_fail_cached_def cache_get_hit [OF assms])

lemma fail_cached_miss:
  assumes "\<nexists>p. usable_entry lib now (fh_cache h) a t p"
  shows "handle_fail_cached lib now h a t msg =
           ((False, ReasonNoCachedPolicy a t, 100),
            h\<lparr> fh_cache := snd (cache_get lib now (fh_cache h) a t),
                fail_closed_count := fail_closed_count h + 1 \<rparr>)"
proof -
  obtain r pc where g: "cache_get lib now (fh_cache h) a t = (r, pc)"
    by (cases "cache_get lib now (fh_cache h) a t")
  with cache_get_miss(1) [OF assms] have "r = None" by simp
  with g show ?thesis by (simp add: handle_fail_cached_def)
qed

text \<open>
  What CACHED mode does, in terms of the key string: \<open>on_validation_failure\<close> replays the
  decision of the entry stored under \<open>make_key a t\<close> (same allowed flag, same risk score)
  when that entry is unexpired and its hash verifies, and leaves the cache entries as they
  are; in every other case (no entry under the key, lapsed TTL, hash mismatch) it answers
  blocked with risk 100, \<open>get\<close> returns nothing, and the key is gone from the cache
  afterwards. The entry under the key need not have been set for the pair \<open>(a, t)\<close>.
\<close>

lemma cached_mode_by_key:
  assumes "mode (fh_config h) = CACHED"
  shows "(usable_entry lib now (fh_cache h) a t p \<longrightarrow>
           fst (fst (on_validation_failure lib now h a t err)) = allowed p \<and>
           snd (snd (fst (on_validation_failure lib now h a t err))) = risk_score p \<and>
           cache (fh_cache (snd (on_validation_failure lib now h a t err))) = cache (fh_cache h))
       \<and> ((\<nexists>q. usable_entry lib now (fh_cache h) a t q) \<longrightarrow>
           fst (fst (on_validation_failure lib now h a t err)) = False \<and>
           snd (snd (fst (on_validation_failure lib now h a t err))) = 100 \<and>
           fst (cache_get lib now (fh_cache h) a t) = None \<and>
           map_of (cache (snd (cache_get lib now (fh_cache h) a t))) (make_key a t) = None \<and>
           map_of (cache (fh_cache (snd (on_validation_failure lib now h a t err))))
             (make_key a t) = None)"
proof (intro conjI impI)
  let ?h1 = "h\<lparr> last_failure_time := Some now \<rparr>"
  let ?msg = "case err of None \<Rightarrow> ''Unknown error'' | Some e \<Rightarrow> e"
  have unfold: "on_validation_failure lib now h a t err = handle_fail_cached lib now ?h1 a t ?msg"
    using assms by (simp add: on_validation_failure_def Let_def)
  {
    assume "usable_entry lib now (fh_cache h) a t p"
    then have u: "usable_entry lib now (fh_cache ?h1) a t p" by simp
    show "fst (fst (on_validation_failure lib now h a t err)) = allowed p"
      and "snd (snd (fst (on_validation_failure lib now h a t err))) = risk_score p"
      and "cache (fh_cache (snd (on_validation_failure lib now h a t err))) = cache (fh_cache h)"
      by (simp_all add: unfold fail_cached_hit [OF u])
  }
  {
    assume none: "\<nexists>q. usable_entry lib now (fh_cache h) a t q"
    then have n1: "\<nexists>q. usable_entry lib now (fh_cache ?h1) a t q" by simp
    show "fst (fst (on_validation_failure lib now h a t err)) = False"
      and "snd (snd (fst (on_validation_failure lib now h a t err))) = 100"
      and "fst (cache_get lib now (fh_cache h) a t) = None"
      and "map_of (cache (snd (cache_get lib now (fh_cache h) a t))) (make_key a t) = None"
      and "map_of (cache (fh_cache (snd (on_validation_failure lib now h a t err))))
             (make_key a t) = None"
      using cache_get_miss(1,2) [OF none]
      by (simp_all add: unfold fail_cached_miss [OF n1])
  }
qed

lemma cached_handler_cache:
  "cache (fh_cache cached_handler) = [(''file_read::/etc/passwd'', passwd_policy)]"
  by (simp add: cached_handler_def cache_result_def cache_set_def FailModeHandler_init_def
      PolicyCache_init_def load_from_disk_def FailModeConfig_default_def Let_def
      make_key_def compute_hash_def toy_lib_def str_bool_def passwd_policy_def
      cleanup_oldest_def save_to_disk_def)

lemma cached_handler_mode: "mode (fh_config cached_handler) = CACHED"
  by (simp add: cached_handler_def cache_result_def FailModeHandler_init_def Let_def)

lemma passwd_policy_usable:
  "now \<le> 70 \<Longrightarrow> usable_entry toy_lib now (fh_cache cached_handler) ''file_read'' ''/etc/passwd'' passwd_policy"
  by (simp add: usable_entry_def cached_handler_cache make_key_def is_expired_def
      verify_integrity_def compute_hash_def toy_lib_def str_bool_def passwd_policy_def)

lemma passwd_policy_lapsed:
  "70 < now \<Longrightarrow> \<nexists>q. usable_entry toy_lib now (fh_cache cached_handler) ''file_read'' ''/etc/passwd'' q"
  by (auto simp: usable_entry_def cached_handler_cache make_key_def is_expired_def
      passwd_policy_def)

lemma make_key_collision: "make_key ''http::get'' ''example.com'' = make_key ''http'' ''get::example.com''"
  by (simp add: make_key_def)

lemma collide_handler_cache:
  "cache (fh_cache (collide_handler lib)) =
     [(''http::get::example.com'',
       \<lparr> action = ''http::get'', target = ''example.com'', allowed = True, risk_score = 0,
         cached_at = 10, expires_at = 70,
         policy_hash = take 16 (sha256_hexdigest lib
            (''http::get:example.com:True:'' @ str_float lib 0 @ '':'' @ str_float lib 10)),
         metadata = [] \<rparr>)]"
  by (simp add: collide_handler_def cache_result_def cache_set_def FailModeHandler_init_def
      PolicyCache_init_def load_from_disk_def FailModeConfig_default_def Let_def
      make_key_def compute_hash_def str_bool_def cleanup_oldest_def save_to_disk_def)

text \<open>
  C7. The claim fails on the code where two pairs have the same key string. The cache key
  is \<open>action @ ''::'' @ target\<close>, and \<open>get\<close> never compares the \<open>action\<close> and \<open>target\<close>
  stored in the entry with the pair asked for. After the single call
  \<open>cache_result(''http::get'', ''example.com'', allowed=True, risk_score=0)\<close> the cache holds
  one entry, set for that pair; no entry was ever set for the pair
  \<open>(''http'', ''get::example.com'')\<close>. In CACHED mode \<open>on_validation_failure\<close> for that second
  pair answers allowed with risk 0, the decision of the first pair, where the claim says
  blocked with risk 100. This holds whatever the hash function and the float formatting
  are.
\<close>

theorem C7_colliding_key_replays_other_pair:
  "mode (fh_config (collide_handler lib)) = CACHED \<and>
   map (action \<circ> snd) (cache (fh_cache (collide_handler lib))) = [''http::get''] \<and>
   map (target \<circ> snd) (cache (fh_cache (collide_handler lib))) = [''example.com''] \<and>
   (''http'', ''get::example.com'') \<noteq> (''http::get'', ''example.com'') \<and>
   fst (on_validation_failure lib 20 (collide_handler lib) ''http'' ''get::example.com'' None) =
     (True, ReasonCachedPolicy 10 True 0, 0) \<and>
   fst (on_validation_failure lib 20 (collide_handler lib) ''http::get'' ''example.com'' None) =
     (True, ReasonCachedPolicy 10 True 0, 0)"
proof -
  have m: "mode (fh_config (collide_handler lib)) = CACHED"
    by (simp add: collide_handler_def cache_result_def FailModeHandler_init_def Let_def)
  have other: "fst (on_validation_failure lib 20 (collide_handler lib) ''http'' ''get::example.com'' None) =
     (True, ReasonCachedPolicy 10 True 0, 0)"
    by (simp add: on_validation_failure_def Let_def m handle_fail_cached_def cache_get_def
        collide_handler_cache make_key_def is_expired_def verify_integrity_def compute_hash_def
        str_bool_def)
  have own: "fst (on_validation_failure lib 20 (collide_handler lib) ''http::get'' ''example.com'' None) =
     (True, ReasonCachedPolicy 10 True 0, 0)"
    by (simp add: on_validation_failure_def Let_def m handle_fail_cached_def cache_get_def
        collide_handler_cache make_key_def is_expired_def verify_integrity_def compute_hash_def
        str_bool_def)
  show ?thesis using m other own by (simp add: collide_handler_cache)
qed

text \<open>
  C10. The integrity check reads the action, the target, the allowed flag, the risk
  score, the caching time and the stored hash, and nothing else: two policies that agree
  on these get the same verdict, whatever their \<open>expires_at\<close> and \<open>metadata\<close> are. So an
  entry whose \<open>expires_at\<close> was moved into the future, or whose metadata was rewritten,
  still verifies, and \<open>get\<close> serves it for as long as the new \<open>expires_at\<close> allows.
\<close>

theorem C10_integrity_ignores_expiry_and_metadata:
  "(action p' = action p \<and> target p' = target p \<and> allowed p' = allowed p \<and>
    risk_score p' = risk_score p \<and> cached_at p' = cached_at p \<and>
    policy_hash p' = policy_hash p
      \<longrightarrow> verify_integrity lib p' = verify_integrity lib p)
   \<and> verify_integrity lib (p\<lparr> expires_at := e, metadata := m \<rparr>) = verify_integrity lib p
   \<and> (map_of (cache pc) (make_key a t) = Some p \<and> verify_integrity lib p \<and> now \<le> e
      \<longrightarrow> fst (cache_get lib now
                   (pc\<lparr> cache := AList.update (make_key a t)
                                   (p\<lparr> expires_at := e, metadata := m \<rparr>) (cache pc) \<rparr>) a t)
            = Some (p\<lparr> expires_at := e, metadata := m \<rparr>))"
proof (intro conjI impI)
  assume "action p' = action p \<and> target p' = target p \<and> allowed p' = allowed p \<and>
    risk_score p' = risk_score p \<and> cached_at p' = cached_at p \<and>
    policy_hash p' = policy_hash p"
  then show "verify_integrity lib p' = verify_integrity lib p"
    by (simp add: verify_integrity_def compute_hash_def)
next
  show same: "verify_integrity lib (p\<lparr> expires_at := e, metadata := m \<rparr>) = verify_integrity lib p"
    by (simp add: verify_integrity_def compute_hash_def)
  assume h: "map_of (cache pc) (make_key a t) = Some p \<and> verify_integrity lib p \<and> now \<le> e"
  let ?p = "p\<lparr> expires_at := e, metadata := m \<rparr>"
  let ?pc = "pc\<lparr> cache := AList.update (make_key a t) ?p (cache pc) \<rparr>"
  have "usable_entry lib now ?pc a t ?p"
    using h same by (simp add: usable_entry_def update_conv is_expired_def)
  then show "fst (cache_get lib now ?pc a t) = Some ?p"
    by (simp add: cache_get_hit)
qed

theorem C10_witness:
  "verify_integrity toy_lib (passwd_policy\<lparr> expires_at := 1000000, metadata := [(''k'', ''v'')] \<rparr>) \<and>
   verify_integrity toy_lib passwd_policy \<and>
   fst (cache_get toy_lib 5000
          ((fh_cache cached_handler)\<lparr> cache :=
              AList.update ''file_read::/etc/passwd''
                (passwd_policy\<lparr> expires_at := 1000000, metadata := [(''k'', ''v'')] \<rparr>)
                (cache (fh_cache cached_handler)) \<rparr>) ''file_read'' ''/etc/passwd'')
     = Some (passwd_policy\<lparr> expires_at := 1000000, metadata := [(''k'', ''v'')] \<rparr>) \<and>
   fst (cache_get toy_lib 5000 (fh_cache cached_handler) ''file_read'' ''/etc/passwd'') = None"
proof -
  have v: "verify_integrity toy_lib passwd_policy"
    by (simp add: verify_integrity_def compute_hash_def toy_lib_def str_bool_def passwd_policy_def)
  have m: "map_of (cache (fh_cache cached_handler)) (make_key ''file_read'' ''/etc/passwd'') = Some passwd_policy"
    by (simp add: cached_handler_cache make_key_def)
  have k: "make_key ''file_read'' ''/etc/passwd'' = ''file_read::/etc/passwd''"
    by (simp add: make_key_def)
  have old: "fst (cache_get toy_lib 5000 (fh_cache cached_handler) ''file_read'' ''/etc/passwd'') = None"
    by (rule cache_get_miss(1) [OF passwd_policy_lapsed]) simp
  from C10_integrity_ignores_expiry_and_metadata [where p = passwd_policy and p' = passwd_policy
        and lib = toy_lib and e = 1000000 and m = "[(''k'', ''v'')]"
        and pc = "fh_cache cached_handler" and a = "''file_read''" and t = "''/etc/passwd''"
        and now = 5000] v m old
  show ?thesis by (simp add: k)
qed

section \<open>Threshold engine\<close>

lemma check_actions_append:
  "check_actions bt agent atype (xs @ ys) =
     (case check_actions bt agent atype xs of
        (r1, bt1) \<Rightarrow> (case check_actions bt1 agent atype ys of (r2, bt2) \<Rightarrow> (r1 @ r2, bt2)))"
  by (induction xs arbitrary: bt) (auto split: prod.splits)

lemma check_action_allowed:
  assumes thr: "map_of (thresholds bt) atype = Some cfg"
    and cool: "\<not> is_in_cooldown bt agent atype t"
    and fresh: "\<forall>x \<in> set (action_history bt agent atype). x > t - real_of_int (window_seconds cfg)"
    and room: "int (length (action_history bt agent atype)) < max_count cfg"
  shows "\<exists>bt'. check_action bt agent atype tgt md t = ((True, None), bt') \<and>
           thresholds bt' = thresholds bt \<and> cooldowns bt' = cooldowns bt \<and>
           breach_history bt' = breach_history bt \<and>
           action_history bt' agent atype = action_history bt agent atype @ [t]"
proof -
  have keep: "filter (\<lambda>ts. ts > t - real_of_int (window_seconds cfg)) (action_history bt agent atype)
                = action_history bt agent atype"
    using fresh by (simp add: filter_id_conv)
  have c: "\<not> is_in_cooldown (bt\<lparr> total_checks := total_checks bt + 1 \<rparr>) agent atype t"
    using cool by (simp add: is_in_cooldown_def)
  show ?thesis
    using thr c room
    by (simp add: check_action_def Let_def count_recent_actions_def keep record_action_def)
qed

lemma check_actions_allowed:
  assumes "map_of (thresholds bt) atype = Some cfg"
    and "\<forall>t \<in> set ts. \<not> is_in_cooldown bt agent atype t"
    and "\<forall>t \<in> set ts. \<forall>x \<in> set (action_history bt agent atype). x > t - real_of_int (window_seconds cfg)"
    and "\<forall>x \<in> set ts. \<forall>y \<in> set ts. y - x < real_of_int (window_seconds cfg)"
    and "int (length (action_history bt agent atype) + length ts) \<le> max_count cfg"
  shows "\<exists>bt'. check_actions bt agent atype ts = (replicate (length ts) (True, None), bt') \<and>
           thresholds bt' = thresholds bt \<and> cooldowns bt' = cooldowns bt \<and>
           breach_history bt' = breach_history bt \<and>
           action_history bt' agent atype = action_history bt agent atype @ ts"
  using assms
proof (induction ts arbitrary: bt)
  case Nil
  then show ?case by simp
next
  case (Cons t ts)
  from Cons.prems have room: "int (length (action_history bt agent atype)) < max_count cfg"
    by simp
  have "\<exists>bt'. check_action bt agent atype [] None t = ((True, None), bt') \<and>
           thresholds bt' = thresholds bt \<and> cooldowns bt' = cooldowns bt \<and>
           breach_history bt' = breach_history bt \<and>
           action_history bt' agent atype = action_history bt agent atype @ [t]"
  proof (rule check_action_allowed [OF Cons.prems(1)])
    show "\<not> is_in_cooldown bt agent atype t" using Cons.prems(2) by simp
    show "\<forall>x \<in> set (action_history bt agent atype). x > t - real_of_int (window_seconds cfg)"
      using Cons.prems(3) by simp
    show "int (length (action_history bt agent atype)) < max_count cfg" by (rule room)
  qed
  then obtain bt1 where step: "check_action bt agent atype [] None t = ((True, None), bt1)"
    and keep: "thresholds bt1 = thresholds bt" "cooldowns bt1 = cooldowns bt"
      "breach_history bt1 = breach_history bt"
      "action_history bt1 agent atype = action_history bt agent atype @ [t]"
    by auto
  have cool1: "\<forall>t' \<in> set ts. \<not> is_in_cooldown bt1 agent atype t'"
    using Cons.prems(2) keep(2) by (simp add: is_in_cooldown_def)
  have fresh1: "\<forall>t' \<in> set ts. \<forall>x \<in> set (action_history bt1 agent atype).
                   x > t' - real_of_int (window_seconds cfg)"
  proof (intro ballI)
    fix t' x assume t': "t' \<in> set ts" and x: "x \<in> set (action_history bt1 agent atype)"
    from x keep(4) have "x \<in> set (action_history bt agent atype) \<or> x = t" by auto
    then show "x > t' - real_of_int (window_seconds cfg)"
    proof
      assume "x \<in> set (action_history bt agent atype)"
      with Cons.prems(3) t' show ?thesis by simp
    next
      assume "x = t"
      moreover from Cons.prems(4) t' have "t' - t < real_of_int (window_seconds cfg)" by simp
      ultimately show ?thesis by simp
    qed
  qed
  have within1: "\<forall>x \<in> set ts. \<forall>y \<in> set ts. y - x < real_of_int (window_seconds cfg)"
    using Cons.prems(4) by simp
  have room1: "int (length (action_history bt1 agent atype) + length ts) \<le> max_count cfg"
    using Cons.prems(5) keep(4) by simp
  from Cons.IH [of bt1, OF _ cool1 fresh1 within1 room1] Cons.prems(1) keep(1)
  obtain bt2 where rest: "check_actions bt1 agent atype ts = (replicate (length ts) (True, None), bt2)"
    and keep2: "thresholds bt2 = thresholds bt1" "cooldowns bt2 = cooldowns bt1"
      "breach_history bt2 = breach_history bt1"
      "action_history bt2 agent atype = action_history bt1 agent atype @ ts"
    by auto
  show ?case
    using step rest keep keep2 by simp
qed

lemma handle_breach_fields:
  "handle_breach bt agent cfg cnt now = (b, bt') \<Longrightarrow>
     b_agent_id b = agent \<and> b_threshold_name b = name cfg \<and> b_action_type b = action_type cfg \<and>
     b_count b = cnt \<and> b_limit b = max_count cfg \<and> b_window_seconds b = window_seconds cfg \<and>
     breach_action b = action_on_breach cfg \<and>
     (should_kill b \<longleftrightarrow>
        real_of_int cnt \<ge> real_of_int (max_count cfg) * multiplier_for_kill cfg \<or>
        action_on_breach cfg = KILL) \<and>
     breach_history bt' = breach_history bt @ [b] \<and>
     thresholds bt' = thresholds bt \<and>
     action_history bt' = action_history bt"
  by (auto simp: handle_breach_def Let_def)

lemma check_action_blocked:
  assumes thr: "map_of (thresholds bt) atype = Some cfg"
    and cool: "\<not> is_in_cooldown bt agent atype t"
    and fresh: "\<forall>x \<in> set (action_history bt agent atype). x > t - real_of_int (window_seconds cfg)"
    and full: "int (length (action_history bt agent atype)) \<ge> max_count cfg"
  shows "\<exists>b bt'. check_action bt agent atype tgt md t = ((False, Some b), bt') \<and>
           b_agent_id b = agent \<and> b_threshold_name b = name cfg \<and>
           b_count b = int (length (action_history bt agent atype)) \<and>
           b_limit b = max_count cfg \<and>
           breach_history bt' = breach_history bt @ [b]"
proof -
  let ?bt0 = "bt\<lparr> total_checks := total_checks bt + 1 \<rparr>"
  have keep: "filter (\<lambda>ts. ts > t - real_of_int (window_seconds cfg)) (action_history bt agent atype)
                = action_history bt agent atype"
    using fresh by (simp add: filter_id_conv)
  have c: "\<not> is_in_cooldown ?bt0 agent atype t"
    using cool by (simp add: is_in_cooldown_def)
  obtain cnt bt1 where cr: "count_recent_actions ?bt0 agent atype t (window_seconds cfg) = (cnt, bt1)"
    by (cases "count_recent_actions ?bt0 agent atype t (window_seconds cfg)")
  then have cnt: "cnt = int (length (action_history bt agent atype))"
    and bh1: "breach_history bt1 = breach_history bt"
    by (auto simp: count_recent_actions_def Let_def keep)
  obtain b bt2 where hb: "handle_breach bt1 agent cfg cnt t = (b, bt2)"
    by (cases "handle_breach bt1 agent cfg cnt t")
  have res: "check_action bt agent atype tgt md t = ((False, Some b), bt2)"
    using thr c full cr hb cnt by (simp add: check_action_def Let_def)
  from handle_breach_fields [OF hb] res cnt bh1 show ?thesis by simp
qed

text \<open>
  C1 (as amended). With a threshold \<open>max_count = N\<close>, \<open>window_seconds = W\<close> for an action
  type, an agent with no history for that type and not in cooldown, and \<open>N + 1\<close> calls of
  \<open>check_action\<close> at instants that lie within \<open>W\<close> of each other: the first \<open>N\<close> calls
  are allowed and the call after them is blocked, with a breach that carries the count
  \<open>N\<close> and is appended to the breach history.
\<close>

theorem C1_first_N_allowed_next_blocked:
  assumes thr: "map_of (thresholds bt) atype = Some cfg"
    and limit: "max_count cfg = int N"
    and empty: "action_history bt agent atype = []"
    and cool: "\<forall>t \<in> set (ts @ [t']). \<not> is_in_cooldown bt agent atype t"
    and len: "length ts = N"
    and within: "\<forall>x \<in> set (ts @ [t']). \<forall>y \<in> set (ts @ [t']). y - x < real_of_int (window_seconds cfg)"
  shows "\<exists>b bt'. check_actions bt agent atype (ts @ [t']) =
                    (replicate N (True, None) @ [(False, Some b)], bt') \<and>
                  b_agent_id b = agent \<and> b_threshold_name b = name cfg \<and>
                  b_count b = int N \<and> b_limit b = int N \<and>
                  breach_history bt' = breach_history bt @ [b]"
proof -
  have "\<exists>bt1. check_actions bt agent atype ts = (replicate (length ts) (True, None), bt1) \<and>
           thresholds bt1 = thresholds bt \<and> cooldowns bt1 = cooldowns bt \<and>
           breach_history bt1 = breach_history bt \<and>
           action_history bt1 agent atype = action_history bt agent atype @ ts"
  proof (rule check_actions_allowed [OF thr])
    show "\<forall>t \<in> set ts. \<not> is_in_cooldown bt agent atype t" using cool by simp
    show "\<forall>t \<in> set ts. \<forall>x \<in> set (action_history bt agent atype).
            x > t - real_of_int (window_seconds cfg)" by (simp add: empty)
    show "\<forall>x \<in> set ts. \<forall>y \<in> set ts. y - x < real_of_int (window_seconds cfg)"
      using within by simp
    show "int (length (action_history bt agent atype) + length ts) \<le> max_count cfg"
      by (simp add: empty len limit)
  qed
  then obtain bt1 where first: "check_actions bt agent atype ts = (replicate N (True, None), bt1)"
    and keep: "thresholds bt1 = thresholds bt" "cooldowns bt1 = cooldowns bt"
      "breach_history bt1 = breach_history bt" "action_history bt1 agent atype = ts"
    by (auto simp: len empty)
  have "\<exists>b bt'. check_action bt1 agent atype [] None t' = ((False, Some b), bt') \<and>
           b_agent_id b = agent \<and> b_threshold_name b = name cfg \<and>
           b_count b = int (length (action_history bt1 agent atype)) \<and>
           b_limit b = max_count cfg \<and>
           breach_history bt' = breach_history bt1 @ [b]"
  proof (rule check_action_blocked)
    show "map_of (thresholds bt1) atype = Some cfg" using thr keep(1) by simp
    show "\<not> is_in_cooldown bt1 agent atype t'"
      using cool keep(2) by (simp add: is_in_cooldown_def)
    show "\<forall>x \<in> set (action_history bt1 agent atype). x > t' - real_of_int (window_seconds cfg)"
    proof
      fix x assume "x \<in> set (action_history bt1 agent atype)"
      then have "x \<in> set (ts @ [t'])" by (simp add: keep(4))
      moreover have "t' \<in> set (ts @ [t'])" by simp
      ultimately have "t' - x < real_of_int (window_seconds cfg)" using within by blast
      then show "x > t' - real_of_int (window_seconds cfg)" by simp
    qed
    show "int (length (action_history bt1 agent atype)) \<ge> max_count cfg"
      by (simp add: keep(4) len limit)
  qed
  then obtain b bt2 where last: "check_action bt1 agent atype [] None t' = ((False, Some b), bt2)"
    and fields: "b_agent_id b = agent" "b_threshold_name b = name cfg" "b_count b = int N"
      "b_limit b = int N" "breach_history bt2 = breach_history bt @ [b]"
    by (auto simp: keep len limit)
  have "check_actions bt agent atype (ts @ [t']) =
          (replicate N (True, None) @ [(False, Some b)], bt2)"
    by (simp add: check_actions_append first last)
  with fields show ?thesis by blast
qed

lemma two_engine_thresholds: "thresholds two_engine = [(''probe'', two_cfg)]"
  by (simp add: two_engine_def BehavioralThresholds_init_def two_cfg_def mk_threshold_def Let_def)

lemma two_engine_fresh:
  "action_history two_engine a b = []" "cooldowns two_engine a = None"
  "breach_history two_engine = []"
  by (simp_all add: two_engine_def BehavioralThresholds_init_def Let_def)

theorem C1_witness:
  "map fst (fst (check_actions two_engine ''agent-1'' ''probe'' [0, 20, 40])) = [True, True, False] \<and>
   map b_count (breach_history (snd (check_actions two_engine ''agent-1'' ''probe'' [0, 20, 40]))) = [2]"
proof -
  have thr: "map_of (thresholds two_engine) ''probe'' = Some two_cfg"
    by (simp add: two_engine_thresholds)
  have limit: "max_count two_cfg = int 2"
    by (simp add: two_cfg_def mk_threshold_def)
  have cool: "\<forall>t \<in> set ([0, 20] @ [40::real]). \<not> is_in_cooldown two_engine ''agent-1'' ''probe'' t"
    by (simp add: is_in_cooldown_def two_engine_fresh)
  have len: "length [0, 20::real] = 2" by simp
  have within: "\<forall>x \<in> set ([0, 20] @ [40::real]). \<forall>y \<in> set ([0, 20] @ [40]).
                  y - x < real_of_int (window_seconds two_cfg)"
    by (simp add: two_cfg_def mk_threshold_def)
  from C1_first_N_allowed_next_blocked [OF thr limit two_engine_fresh(1) cool len within]
  obtain b bt' where
    r: "check_actions two_engine ''agent-1'' ''probe'' ([0, 20] @ [40]) =
          (replicate 2 (True, None) @ [(False, Some b)], bt')"
    and f: "b_count b = int 2" "breach_history bt' = breach_history two_engine @ [b]"
    by blast
  from r f show ?thesis
    by (simp del: check_actions.simps add: numeral_2_eq_2 two_engine_fresh)
qed

text \<open>
  The claim as first stated fails: it has the \<open>N\<close>-th call blocked. With \<open>max_count = 2\<close>
  the second call within the window is still allowed.
\<close>

theorem C1_counterexample:
  "max_count two_cfg = 2 \<and>
   fst (check_actions two_engine ''agent-1'' ''probe'' [0, 20]) = [(True, None), (True, None)]"
  by (simp add: two_cfg_def mk_threshold_def check_action_def Let_def is_in_cooldown_def
      two_engine_fresh two_engine_thresholds count_recent_actions_def record_action_def
      split: prod.splits)

text \<open>
  C4 (as amended). A breach made by \<open>_handle_breach\<close>, which is the breach of every
  count-based rejection and the only kind recorded in the breach history, has
  \<open>should_kill\<close> exactly when its \<open>breach_action\<close> is \<open>KILL\<close> or its count reaches
  \<open>max_count * multiplier_for_kill\<close> of the threshold of its action type. The breach of
  a rejection during cooldown is not recorded and is the fixed record with count 0,
  action \<open>BLOCK\<close> and \<open>should_kill = False\<close>; it satisfies the same equivalence when
  \<open>max_count * multiplier_for_kill\<close> of the threshold is positive.
\<close>

theorem C4_should_kill_of_returned_breach:
  assumes res: "check_action bt agent atype tgt md now = ((al, Some b), bt')"
  shows "(\<not> is_in_cooldown bt agent atype now \<longrightarrow>
            (\<exists>cfg. map_of (thresholds bt) atype = Some cfg \<and>
               breach_history bt' = breach_history bt @ [b] \<and>
               breach_action b = action_on_breach cfg \<and>
               (should_kill b \<longleftrightarrow>
                  breach_action b = KILL \<or>
                  real_of_int (b_count b) \<ge> real_of_int (max_count cfg) * multiplier_for_kill cfg)))
       \<and> (is_in_cooldown bt agent atype now \<longrightarrow>
            b = cooldown_breach agent atype \<and> should_kill b = False \<and> b_count b = 0 \<and>
            breach_action b = BLOCK \<and> breach_history bt' = breach_history bt \<and>
            (\<forall>cfg. map_of (thresholds bt) atype = Some cfg \<and>
                   0 < real_of_int (max_count cfg) * multiplier_for_kill cfg \<longrightarrow>
               (should_kill b \<longleftrightarrow>
                  breach_action b = KILL \<or>
                  real_of_int (b_count b) \<ge> real_of_int (max_count cfg) * multiplier_for_kill cfg)))"
proof (intro conjI impI)
  let ?bt0 = "bt\<lparr> total_checks := total_checks bt + 1 \<rparr>"
  have cd: "is_in_cooldown ?bt0 agent atype now = is_in_cooldown bt agent atype now"
    by (simp add: is_in_cooldown_def)
  {
    assume nc: "\<not> is_in_cooldown bt agent atype now"
    show "\<exists>cfg. map_of (thresholds bt) atype = Some cfg \<and>
               breach_history bt' = breach_history bt @ [b] \<and>
               breach_action b = action_on_breach cfg \<and>
               (should_kill b \<longleftrightarrow>
                  breach_action b = KILL \<or>
                  real_of_int (b_count b) \<ge> real_of_int (max_count cfg) * multiplier_for_kill cfg)"
    proof (cases "map_of (thresholds bt) atype")
      case None
      with res nc cd show ?thesis by (simp add: check_action_def Let_def)
    next
      case (Some cfg)
      obtain cnt bt1 where cr: "count_recent_actions ?bt0 agent atype now (window_seconds cfg) = (cnt, bt1)"
        by (cases "count_recent_actions ?bt0 agent atype now (window_seconds cfg)")
      then have bh1: "breach_history bt1 = breach_history bt"
        by (auto simp: count_recent_actions_def Let_def)
      obtain b0 bt2 where hb: "handle_breach bt1 agent cfg cnt now = (b0, bt2)"
        by (cases "handle_breach bt1 agent cfg cnt now")
      from res nc cd Some cr hb have "b = b0 \<and> bt' = bt2"
        by (simp add: check_action_def Let_def split: if_splits)
      with handle_breach_fields [OF hb] bh1 Some show ?thesis by auto
    qed
  }
  {
    assume c: "is_in_cooldown bt agent atype now"
    with res cd have b: "b = cooldown_breach agent atype" and h: "bt' = ?bt0\<lparr> total_blocked := total_blocked ?bt0 + 1 \<rparr>"
      by (simp_all add: check_action_def Let_def)
    show "b = cooldown_breach agent atype" by (rule b)
    show "should_kill b = False" "b_count b = 0" "breach_action b = BLOCK"
      by (simp_all add: b cooldown_breach_def)
    show "breach_history bt' = breach_history bt" by (simp add: h)
    show "\<forall>cfg. map_of (thresholds bt) atype = Some cfg \<and>
                   0 < real_of_int (max_count cfg) * multiplier_for_kill cfg \<longrightarrow>
               (should_kill b \<longleftrightarrow>
                  breach_action b = KILL \<or>
                  real_of_int (b_count b) \<ge> real_of_int (max_count cfg) * multiplier_for_kill cfg)"
      by (auto simp: b cooldown_breach_def)
  }
qed

lemma zero_engine_thresholds: "thresholds zero_engine = [(''probe'', zero_cfg)]"
  by (simp add: zero_engine_def BehavioralThresholds_init_def zero_cfg_def mk_threshold_def Let_def)

lemma zero_engine_fresh:
  "action_history zero_engine a b = []" "cooldowns zero_engine a = None"
  "breach_history zero_engine = []"
  by (simp_all add: zero_engine_def BehavioralThresholds_init_def Let_def)

lemma zero_engine_first:
  "fst (check_action zero_engine ''agent-1'' ''probe'' [] None 0) =
     (False, Some \<lparr> b_agent_id = ''agent-1'', b_threshold_name = ''Nothing Allowed'',
                    b_action_type = ''probe'', b_count = 0, b_limit = 0, b_window_seconds = 60,
                    breach_action = BLOCK, should_kill = True \<rparr>)"
  "cooldowns (snd (check_action zero_engine ''agent-1'' ''probe'' [] None 0)) ''agent-1'' =
     Some ((\<lambda>_. None)(''probe'' := Some 60))"
  "thresholds (snd (check_action zero_engine ''agent-1'' ''probe'' [] None 0)) =
     thresholds zero_engine"
  by (simp_all add: check_action_def Let_def is_in_cooldown_def zero_engine_fresh
      zero_engine_thresholds count_recent_actions_def handle_breach_def zero_cfg_def
      mk_threshold_def zero_engine_def BehavioralThresholds_init_def)

lemma zero_engine_second:
  "check_action (snd (check_action zero_engine ''agent-1'' ''probe'' [] None 0))
       ''agent-1'' ''probe'' [] None 1
     = ((False, Some (cooldown_breach ''agent-1'' ''probe'')),
        (snd (check_action zero_engine ''agent-1'' ''probe'' [] None 0))
          \<lparr> total_checks := total_checks (snd (check_action zero_engine ''agent-1'' ''probe'' [] None 0)) + 1,
            total_blocked := total_blocked (snd (check_action zero_engine ''agent-1'' ''probe'' [] None 0)) + 1 \<rparr>)"
  by (simp add: check_action_def [of "snd (check_action zero_engine ''agent-1'' ''probe'' [] None 0)"]
      Let_def is_in_cooldown_def zero_engine_first(2))

theorem C4_witness:
  "should_kill (the (snd (fst (check_action zero_engine ''agent-1'' ''probe'' [] None 0)))) \<and>
   real_of_int (b_count (the (snd (fst (check_action zero_engine ''agent-1'' ''probe'' [] None 0)))))
     \<ge> real_of_int (max_count zero_cfg) * multiplier_for_kill zero_cfg \<and>
   breach_history (snd (check_action zero_engine ''agent-1'' ''probe'' [] None 0)) =
     [the (snd (fst (check_action zero_engine ''agent-1'' ''probe'' [] None 0)))] \<and>
   snd (fst (check_action (snd (check_action zero_engine ''agent-1'' ''probe'' [] None 0))
               ''agent-1'' ''probe'' [] None 1)) = Some (cooldown_breach ''agent-1'' ''probe'') \<and>
   breach_history (snd (check_action (snd (check_action zero_engine ''agent-1'' ''probe'' [] None 0))
               ''agent-1'' ''probe'' [] None 1)) =
     breach_history (snd (check_action zero_engine ''agent-1'' ''probe'' [] None 0))"
proof -
  let ?r1 = "check_action zero_engine ''agent-1'' ''probe'' [] None 0"
  let ?b1 = "\<lparr> b_agent_id = ''agent-1'', b_threshold_name = ''Nothing Allowed'',
                b_action_type = ''probe'', b_count = 0, b_limit = 0, b_window_seconds = 60,
                breach_action = BLOCK, should_kill = True \<rparr>"
  have r1: "?r1 = ((False, Some ?b1), snd ?r1)"
    using zero_engine_first(1) by (cases ?r1) simp
  have nc: "\<not> is_in_cooldown zero_engine ''agent-1'' ''probe'' 0"
    by (simp add: is_in_cooldown_def zero_engine_fresh)
  have c2: "is_in_cooldown (snd ?r1) ''agent-1'' ''probe'' 1"
    by (simp add: is_in_cooldown_def zero_engine_first(2))
  from C4_should_kill_of_returned_breach [OF r1] nc
  have first: "breach_history (snd ?r1) = [?b1]"
    by (auto simp: zero_engine_fresh)
  from C4_should_kill_of_returned_breach [OF zero_engine_second] c2
  have second: "breach_history (snd (check_action (snd ?r1) ''agent-1'' ''probe'' [] None 1)) =
                  breach_history (snd ?r1)"
    by (simp add: zero_engine_second)
  show ?thesis
    using first second by (simp add: zero_engine_first(1) zero_engine_second zero_cfg_def mk_threshold_def)
qed

text \<open>
  The claim as first stated fails on a rejection during cooldown: with \<open>max_count = 0\<close>
  the first call breaches and starts the cooldown, and the breach returned by the second
  call has count \<open>0 \<ge> 0 * 2\<close> but \<open>should_kill = False\<close>.
\<close>

theorem C4_counterexample:
  "map_of (thresholds zero_engine) ''probe'' = Some zero_cfg \<and>
   snd (fst (check_action (snd (check_action zero_engine ''agent-1'' ''probe'' [] None 0))
               ''agent-1'' ''probe'' [] None 1)) = Some (cooldown_breach ''agent-1'' ''probe'') \<and>
   should_kill (cooldown_breach ''agent-1'' ''probe'') = False \<and>
   real_of_int (b_count (cooldown_breach ''agent-1'' ''probe''))
     \<ge> real_of_int (max_count zero_cfg) * multiplier_for_kill zero_cfg"
  by (simp add: zero_engine_thresholds zero_engine_second cooldown_breach_def zero_cfg_def
      mk_threshold_def)

subsection \<open>Exfiltration sub-check\<close>

lemma record_data_access_volume_windowed:
  "\<forall>e \<in> set (data_volumes (snd (record_data_access ed agent tgt n now)) agent).
      fst e > now - real_of_int (ed_window_seconds ed)"
  by (simp add: record_data_access_def Let_def)

lemma record_data_access_targets_grow:
  "unique_targets (snd (record_data_access ed agent tgt n now)) agent =
     insert tgt (unique_targets ed agent)"
  by (simp add: record_data_access_def Let_def)

text \<open>
  C5. The byte volume is windowed (lemma \<open>record_data_access_volume_windowed\<close>), the set
  of targets is not: nothing ever removes a target. An access at instant 0 followed by
  one at instant 1000, far outside the 300-second window, leaves a byte volume that
  counts the second access only and a target count of two; with the cap on distinct
  targets at one, the second call reports exfiltration because of the stale target.
\<close>

theorem C5_stale_target_still_counted:
  "checked_bytes
     (snd (record_data_access
        (snd (record_data_access ExfiltrationDetector_init ''agent-1'' ''/data/a'' 500 0))
        ''agent-1'' ''/data/b'' 700 1000)) ''agent-1'' = 700 \<and>
   checked_target_count
     (snd (record_data_access
        (snd (record_data_access ExfiltrationDetector_init ''agent-1'' ''/data/a'' 500 0))
        ''agent-1'' ''/data/b'' 700 1000)) ''agent-1'' = 2 \<and>
   fst (record_data_access
        ((snd (record_data_access ExfiltrationDetector_init ''agent-1'' ''/data/a'' 500 0))
           \<lparr> max_unique_files := 1 \<rparr>)
        ''agent-1'' ''/data/b'' 700 1000) = (True, UniqueFileAccessExceeded 2)"
  by (simp add: record_data_access_def ExfiltrationDetector_init_def Let_def
      checked_bytes_def checked_target_count_def)

section \<open>Multi-window detector\<close>

lemma prune_loop_eq:
  "prune_loop c es tot =
     (dropWhile (\<lambda>e. ev_timestamp e < c) es,
      tot - sum_list (map ev_value (takeWhile (\<lambda>e. ev_timestamp e < c) es)))"
  by (induction es arbitrary: tot) auto

lemma filter_dropWhile_neg: "filter (\<lambda>x. \<not> P x) (dropWhile P xs) = filter (\<lambda>x. \<not> P x) xs"
  by (induction xs) auto

lemma dropWhile_sorted_filter:
  "sorted (map f xs) \<Longrightarrow> dropWhile (\<lambda>x. f x < (c::real)) xs = filter (\<lambda>x. \<not> f x < c) xs"
proof (induction xs)
  case Nil
  then show ?case by simp
next
  case (Cons x xs)
  show ?case
  proof (cases "f x < c")
    case True
    with Cons show ?thesis by simp
  next
    case False
    with Cons.prems have "\<forall>y \<in> set xs. \<not> f y < c" by fastforce
    then have "filter (\<lambda>x. \<not> f x < c) xs = xs" by (simp add: filter_id_conv)
    with False show ?thesis by simp
  qed
qed

lemma sum_take_drop:
  "sum_list (map g xs) - sum_list (map g (takeWhile P xs)) = (sum_list (map g (dropWhile P xs)) :: real)"
proof -
  have "sum_list (map g xs) = sum_list (map g (takeWhile P xs @ dropWhile P xs))" by simp
  also have "\<dots> = sum_list (map g (takeWhile P xs)) + sum_list (map g (dropWhile P xs))"
    by (simp del: takeWhile_dropWhile_id)
  finally show ?thesis by simp
qed

lemma events_prune:
  "events (prune sw t) =
     dropWhile (\<lambda>e. ev_timestamp e < t - real_of_int (window_value (window_size sw))) (events sw)"
  "window_size (prune sw t) = window_size sw"
  "total (prune sw t) = total sw - sum_list (map ev_value
      (takeWhile (\<lambda>e. ev_timestamp e < t - real_of_int (window_value (window_size sw))) (events sw)))"
  by (simp_all add: prune_def prune_loop_eq Let_def)

lemma sorted_dropWhile_map: "sorted (map f xs) \<Longrightarrow> sorted (map f (dropWhile P xs))"
  by (induction xs) auto

lemma window_ok_prune:
  assumes "window_ok w sw"
  shows "window_ok w (prune sw t)"
    and "total (prune sw t) = sum_list (map ev_value
           (filter (\<lambda>e. ev_timestamp e \<ge> t - real_of_int (window_value w)) (events sw)))"
    and "events (prune sw t) =
           filter (\<lambda>e. ev_timestamp e \<ge> t - real_of_int (window_value w)) (events sw)"
proof -
  from assms have ws: "window_size sw = w" and tot: "total sw = sum_list (map ev_value (events sw))"
    and srt: "sorted (map ev_timestamp (events sw))"
    by (simp_all add: window_ok_def)
  let ?P = "\<lambda>e. ev_timestamp e < t - real_of_int (window_value w)"
  have df: "dropWhile ?P (events sw) = filter (\<lambda>e. \<not> ?P e) (events sw)"
    by (rule dropWhile_sorted_filter [OF srt])
  have nf: "(\<lambda>e. \<not> ?P e) = (\<lambda>e. ev_timestamp e \<ge> t - real_of_int (window_value w))"
    by (auto simp: not_less)
  show ev: "events (prune sw t) =
           filter (\<lambda>e. ev_timestamp e \<ge> t - real_of_int (window_value w)) (events sw)"
    by (simp add: events_prune ws df nf)
  have t2: "total (prune sw t) = sum_list (map ev_value (dropWhile ?P (events sw)))"
    by (simp add: events_prune ws tot sum_take_drop)
  then show "total (prune sw t) = sum_list (map ev_value
           (filter (\<lambda>e. ev_timestamp e \<ge> t - real_of_int (window_value w)) (events sw)))"
    by (simp add: df nf)
  show "window_ok w (prune sw t)"
    unfolding window_ok_def
    using t2 srt by (simp add: events_prune ws sorted_dropWhile_map)
qed

lemma or_now_idem: "or_now (Some (or_now ts now)) now = or_now ts now"
  by (simp add: or_now_def split: option.splits)

lemma or_now_same: "or_now (Some t) t = t"
  by (simp add: or_now_def)

lemma filter_window_mono:
  "(t::real) \<le> T \<Longrightarrow>
   filter (\<lambda>e. f e \<ge> T - L) (filter (\<lambda>e. f e \<ge> t - L) es) = filter (\<lambda>e. f e \<ge> T - L) es"
  by (induction es) auto

lemma check_one_step:
  assumes ok: "detector_ok sd" and t: "or_now (Some t) now = t"
  shows "\<exists>sd'. check_one t now th (found, sd) =
           (found @ (if in_window_total sd (wt_metric th) (wt_window th) t > wt_limit th
                     then [breach_of sd t th] else []), sd') \<and>
         detector_ok sd' \<and> sd_agent_id sd' = sd_agent_id sd \<and>
         sd_thresholds sd' = sd_thresholds sd \<and>
         (\<forall>m w T. t \<le> T \<longrightarrow> in_window_total sd' m w T = in_window_total sd m w T) \<and>
         (\<forall>m T. latest sd m T \<longrightarrow> latest sd' m T)"
proof -
  let ?m = "wt_metric th" and ?w = "wt_window th"
  let ?sw = "windows (trackers sd ?m) ?w"
  let ?tr = "(trackers sd)(?m := (trackers sd ?m)\<lparr> windows := (windows (trackers sd ?m))(?w := prune ?sw t) \<rparr>)"
  from ok have wok: "window_ok ?w ?sw" by (simp add: detector_ok_def)
  have tot: "total (prune ?sw t) = in_window_total sd ?m ?w t"
    by (simp add: window_ok_prune(2) [OF wok] in_window_total_def)
  have ev: "events (prune ?sw t) =
              filter (\<lambda>e. ev_timestamp e \<ge> t - real_of_int (window_value ?w)) (events ?sw)"
    by (rule window_ok_prune(3) [OF wok])
  have okp: "window_ok ?w (prune ?sw t)" by (rule window_ok_prune(1) [OF wok])
  have ok': "\<forall>m w. window_ok w (windows (?tr m) w)"
    using ok okp by (simp add: detector_ok_def)
  have same: "\<forall>m w T. t \<le> T \<longrightarrow> sum_list (map ev_value
                  (filter (\<lambda>e. ev_timestamp e \<ge> T - real_of_int (window_value w))
                          (events (windows (?tr m) w)))) = in_window_total sd m w T"
    by (simp add: in_window_total_def ev filter_window_mono del: filter_filter)
  have sub: "\<forall>m w. set (events (windows (?tr m) w)) \<subseteq> set (events (windows (trackers sd m) w))"
    by (auto simp: ev)
  define sd1 where "sd1 = sd\<lparr> trackers := ?tr \<rparr>"
  have sd1: "detector_ok sd1" "sd_agent_id sd1 = sd_agent_id sd" "sd_thresholds sd1 = sd_thresholds sd"
    "\<forall>m w T. t \<le> T \<longrightarrow> in_window_total sd1 m w T = in_window_total sd m w T"
    using ok' same by (simp_all add: sd1_def detector_ok_def in_window_total_def)
  have lt1: "\<forall>m T. latest sd m T \<longrightarrow> latest sd1 m T"
  proof (intro allI impI)
    fix m T
    assume l: "latest sd m T"
    show "latest sd1 m T"
      unfolding latest_def
    proof (intro allI ballI)
      fix w e
      assume "e \<in> set (events (windows (trackers sd1 m) w))"
      then have "e \<in> set (events (windows (?tr m) w))" by (simp add: sd1_def)
      with sub have "e \<in> set (events (windows (trackers sd m) w))" by blast
      with l show "ev_timestamp e \<le> T" by (simp add: latest_def)
    qed
  qed
  have gt: "mt_get_total (trackers sd ?m) ?w (Some t) now =
              (in_window_total sd ?m ?w t,
               (trackers sd ?m)\<lparr> windows := (windows (trackers sd ?m))(?w := prune ?sw t) \<rparr>)"
    by (simp add: mt_get_total_def sw_get_total_def Let_def t tot)
  show ?thesis
  proof (cases "in_window_total sd ?m ?w t > wt_limit th")
    case False
    then have "check_one t now th (found, sd) = (found, sd1)"
      by (simp add: check_one_def gt Let_def sd1_def)
    with False sd1 lt1 show ?thesis by simp
  next
    case True
    let ?b = "breach_of sd t th"
    let ?sd2 = "sd1\<lparr> breaches := breaches sd1 @ [?b], breach_count := breach_count sd1 + 1 \<rparr>"
    let ?sd3 = "if sd_on_breach ?sd2 then ?sd2\<lparr> sd_callback_log := sd_callback_log ?sd2 @ [?b] \<rparr> else ?sd2"
    from True have "check_one t now th (found, sd) = (found @ [?b], ?sd3)"
      by (simp add: check_one_def gt Let_def sd1_def breach_of_def)
    moreover have "detector_ok ?sd3" "sd_agent_id ?sd3 = sd_agent_id sd"
      "sd_thresholds ?sd3 = sd_thresholds sd"
      "\<forall>m w T. t \<le> T \<longrightarrow> in_window_total ?sd3 m w T = in_window_total sd m w T"
      using sd1 by (simp_all add: detector_ok_def in_window_total_def)
    moreover have "\<forall>m T. latest sd m T \<longrightarrow> latest ?sd3 m T"
      using lt1 by (simp add: latest_def)
    ultimately show ?thesis using True by auto
  qed
qed

lemma breach_of_cong:
  "sd_agent_id sd' = sd_agent_id sd \<Longrightarrow>
   (\<forall>m w T. t \<le> T \<longrightarrow> in_window_total sd' m w T = in_window_total sd m w T) \<Longrightarrow>
   breach_of sd' t th = breach_of sd t th"
  by (simp add: breach_of_def)

lemma check_fold:
  assumes "detector_ok sd" and t: "or_now (Some t) now = t"
  shows "\<exists>sd'. fold (check_one t now) ths (found, sd) =
           (found @ map (breach_of sd t)
                      (filter (\<lambda>th. in_window_total sd (wt_metric th) (wt_window th) t > wt_limit th) ths),
            sd') \<and>
         detector_ok sd' \<and> sd_agent_id sd' = sd_agent_id sd \<and>
         sd_thresholds sd' = sd_thresholds sd \<and>
         (\<forall>m w T. t \<le> T \<longrightarrow> in_window_total sd' m w T = in_window_total sd m w T) \<and>
         (\<forall>m T. latest sd m T \<longrightarrow> latest sd' m T)"
  using assms(1)
proof (induction ths arbitrary: found sd)
  case Nil
  then show ?case by simp
next
  case (Cons th ths)
  from check_one_step [OF Cons.prems t, of th found]
  obtain sd1 where step: "check_one t now th (found, sd) =
           (found @ (if in_window_total sd (wt_metric th) (wt_window th) t > wt_limit th
                     then [breach_of sd t th] else []), sd1)"
    and k: "detector_ok sd1" "sd_agent_id sd1 = sd_agent_id sd"
      "sd_thresholds sd1 = sd_thresholds sd"
      "\<forall>m w T. t \<le> T \<longrightarrow> in_window_total sd1 m w T = in_window_total sd m w T"
      "\<forall>m T. latest sd m T \<longrightarrow> latest sd1 m T"
    by blast
  let ?f1 = "found @ (if in_window_total sd (wt_metric th) (wt_window th) t > wt_limit th
                     then [breach_of sd t th] else [])"
  from Cons.IH [OF k(1), of ?f1]
  obtain sd2 where rest: "fold (check_one t now) ths (?f1, sd1) =
           (?f1 @ map (breach_of sd1 t)
                      (filter (\<lambda>th. in_window_total sd1 (wt_metric th) (wt_window th) t > wt_limit th) ths),
            sd2)"
    and k2: "detector_ok sd2" "sd_agent_id sd2 = sd_agent_id sd1"
      "sd_thresholds sd2 = sd_thresholds sd1"
      "\<forall>m w T. t \<le> T \<longrightarrow> in_window_total sd2 m w T = in_window_total sd1 m w T"
      "\<forall>m T. latest sd1 m T \<longrightarrow> latest sd2 m T"
    by blast
  have bc: "breach_of sd1 t = breach_of sd t"
    using breach_of_cong [OF k(2) k(4)] by (rule ext)
  from k(4) have at: "\<forall>m w. in_window_total sd1 m w t = in_window_total sd m w t" by simp
  have "fold (check_one t now) (th # ths) (found, sd) =
          (found @ map (breach_of sd t)
             (filter (\<lambda>th. in_window_total sd (wt_metric th) (wt_window th) t > wt_limit th) (th # ths)),
           sd2)"
    using step rest at bc by simp
  with k k2 show ?case by auto
qed

lemma check_thresholds_char:
  assumes ok: "detector_ok sd"
  shows "\<exists>sd'. check_thresholds sd (Some t) t =
           (map (breach_of sd t)
              (filter (\<lambda>th. in_window_total sd (wt_metric th) (wt_window th) t > wt_limit th)
                      (sd_thresholds sd)), sd') \<and>
         detector_ok sd' \<and> sd_agent_id sd' = sd_agent_id sd \<and>
         sd_thresholds sd' = sd_thresholds sd \<and>
         (\<forall>m w T. t \<le> T \<longrightarrow> in_window_total sd' m w T = in_window_total sd m w T) \<and>
         (\<forall>m T. latest sd m T \<longrightarrow> latest sd' m T)"
  using check_fold [OF ok or_now_same, of t "sd_thresholds sd" "[]"]
  by (simp add: check_thresholds_def Let_def or_now_same)

lemma window_value_pos: "0 < window_value w"
  by (cases w) simp_all

lemma filter_dropWhile_disjoint:
  "(\<And>x. P x \<Longrightarrow> \<not> Q x) \<Longrightarrow> filter Q (dropWhile P xs) = filter Q xs"
  by (induction xs) auto

lemma record_window:
  assumes ok: "detector_ok sd"
  shows "events (windows (trackers (sd_record sd m v ts now) m) w) =
           dropWhile (\<lambda>e. ev_timestamp e < or_now ts now - real_of_int (window_value w))
             (events (windows (trackers sd m) w) @ [\<lparr> ev_timestamp = or_now ts now, ev_value = v \<rparr>])"
    and "window_size (windows (trackers (sd_record sd m v ts now) m) w) = w"
    and "total (windows (trackers (sd_record sd m v ts now) m) w) =
           total (windows (trackers sd m) w) + v -
           sum_list (map ev_value
             (takeWhile (\<lambda>e. ev_timestamp e < or_now ts now - real_of_int (window_value w))
               (events (windows (trackers sd m) w) @ [\<lparr> ev_timestamp = or_now ts now, ev_value = v \<rparr>])))"
    and "m' \<noteq> m \<Longrightarrow> trackers (sd_record sd m v ts now) m' = trackers sd m'"
proof -
  from ok have ws: "window_size (windows (trackers sd m) w) = w"
    by (simp add: detector_ok_def window_ok_def)
  show "events (windows (trackers (sd_record sd m v ts now) m) w) =
           dropWhile (\<lambda>e. ev_timestamp e < or_now ts now - real_of_int (window_value w))
             (events (windows (trackers sd m) w) @ [\<lparr> ev_timestamp = or_now ts now, ev_value = v \<rparr>])"
    by (simp add: sd_record_def mt_record_def sw_add_def Let_def or_now_idem events_prune ws)
  show "window_size (windows (trackers (sd_record sd m v ts now) m) w) = w"
    by (simp add: sd_record_def mt_record_def sw_add_def Let_def or_now_idem events_prune ws)
  show "total (windows (trackers (sd_record sd m v ts now) m) w) =
           total (windows (trackers sd m) w) + v -
           sum_list (map ev_value
             (takeWhile (\<lambda>e. ev_timestamp e < or_now ts now - real_of_int (window_value w))
               (events (windows (trackers sd m) w) @ [\<lparr> ev_timestamp = or_now ts now, ev_value = v \<rparr>])))"
    by (simp add: sd_record_def mt_record_def sw_add_def Let_def or_now_idem events_prune ws)
  show "m' \<noteq> m \<Longrightarrow> trackers (sd_record sd m v ts now) m' = trackers sd m'"
    by (simp add: sd_record_def)
qed

lemma record_total_at:
  assumes ok: "detector_ok sd" and later: "or_now ts now \<le> T"
  shows "in_window_total (sd_record sd m v ts now) m w T =
           in_window_total sd m w T +
           (if or_now ts now \<ge> T - real_of_int (window_value w) then v else 0)"
proof -
  let ?t = "or_now ts now"
  have disj: "\<And>e. ev_timestamp e < ?t - real_of_int (window_value w) \<Longrightarrow>
                \<not> ev_timestamp e \<ge> T - real_of_int (window_value w)"
    using later by simp
  show ?thesis
    unfolding in_window_total_def record_window(1) [OF ok]
    by (simp add: filter_dropWhile_disjoint [of "\<lambda>e. ev_timestamp e < ?t - real_of_int (window_value w)", OF disj])
qed

lemma record_other_metric:
  "m' \<noteq> m \<Longrightarrow> in_window_total (sd_record sd m v ts now) m' w T = in_window_total sd m' w T"
  by (simp add: in_window_total_def sd_record_def)

lemma record_keeps_ok:
  assumes ok: "detector_ok sd" and lt: "latest sd m (or_now ts now)"
  shows "detector_ok (sd_record sd m v ts now)"
    and "latest (sd_record sd m v ts now) m (or_now ts now)"
proof -
  let ?t = "or_now ts now"
  let ?new = "\<lparr> ev_timestamp = ?t, ev_value = v \<rparr>"
  have one: "window_ok w (windows (trackers (sd_record sd m v ts now) m) w)" for w
  proof -
    let ?old = "events (windows (trackers sd m) w)"
    let ?P = "\<lambda>e. ev_timestamp e < ?t - real_of_int (window_value w)"
    from ok have tot: "total (windows (trackers sd m) w) = sum_list (map ev_value ?old)"
      and srt: "sorted (map ev_timestamp ?old)"
      by (simp_all add: detector_ok_def window_ok_def)
    from lt have "\<forall>e \<in> set ?old. ev_timestamp e \<le> ?t" by (simp add: latest_def)
    with srt have srt2: "sorted (map ev_timestamp (?old @ [?new]))"
      by (simp add: sorted_append)
    have "total (windows (trackers sd m) w) + v - sum_list (map ev_value (takeWhile ?P (?old @ [?new])))
            = sum_list (map ev_value (?old @ [?new])) - sum_list (map ev_value (takeWhile ?P (?old @ [?new])))"
      by (simp add: tot)
    also have "\<dots> = sum_list (map ev_value (dropWhile ?P (?old @ [?new])))"
      by (rule sum_take_drop)
    finally show ?thesis
      unfolding window_ok_def record_window(1,2,3) [OF ok]
      using sorted_dropWhile_map [OF srt2, of ?P] by simp
  qed
  show "detector_ok (sd_record sd m v ts now)"
    unfolding detector_ok_def
  proof (intro allI)
    fix m' w
    show "window_ok w (windows (trackers (sd_record sd m v ts now) m') w)"
    proof (cases "m' = m")
      case True
      then show ?thesis using one by simp
    next
      case False
      then show ?thesis using ok by (simp add: record_window(4) detector_ok_def)
    qed
  qed
  show "latest (sd_record sd m v ts now) m ?t"
    unfolding latest_def record_window(1) [OF ok]
    using lt by (auto simp: latest_def dest!: set_dropWhileD)
qed

lemma latest_mono: "latest sd m t \<Longrightarrow> t \<le> t' \<Longrightarrow> latest sd m t'"
  by (fastforce simp: latest_def)

lemma init_ok:
  "detector_ok (SlidingWindowDetector_init a ths ob)"
  "latest (SlidingWindowDetector_init a ths ob) m t"
  "in_window_total (SlidingWindowDetector_init a ths ob) m w t = 0"
  by (simp_all add: detector_ok_def window_ok_def latest_def in_window_total_def
      SlidingWindowDetector_init_def MetricTracker_init_def SlidingWindow_init_def)

lemma record_frame:
  "sd_agent_id (sd_record sd m v ts now) = sd_agent_id sd"
  "sd_thresholds (sd_record sd m v ts now) = sd_thresholds sd"
  "m' \<noteq> m \<Longrightarrow> latest (sd_record sd m v ts now) m' T = latest sd m' T"
  by (simp_all add: sd_record_def latest_def)

lemma window_length_value: "real_of_int (window_value w) = window_length w"
  by (cases w) (simp_all add: window_length_def)

lemma history_total_snoc:
  "history_total (cs @ [(t, x)]) m w T =
     history_total cs m w T +
     (if T - window_length w \<le> t \<and> t \<le> T then recorded_value m (t, x) else 0)"
  by (simp add: history_total_def)

lemma run_ops_snoc: "run_ops sd (cs @ [c]) = apply_op (run_ops sd cs) c"
  by (induction cs arbitrary: sd) simp_all

text \<open>
  What a history of calls in order of time leaves behind: a well-formed detector whose
  events, for every later instant, add up to the totals of the history.
\<close>

lemma run_ops_chronological:
  assumes "sorted (map fst cs)"
  shows "detector_ok (run_ops (SlidingWindowDetector_init a ths ob) cs) \<and>
         sd_agent_id (run_ops (SlidingWindowDetector_init a ths ob) cs) = a \<and>
         sd_thresholds (run_ops (SlidingWindowDetector_init a ths ob) cs) =
           sd_thresholds (SlidingWindowDetector_init a ths ob) \<and>
         (\<forall>m T. (\<forall>c \<in> set cs. fst c \<le> T) \<longrightarrow>
                 latest (run_ops (SlidingWindowDetector_init a ths ob) cs) m T) \<and>
         (\<forall>m w T. (\<forall>c \<in> set cs. fst c \<le> T) \<longrightarrow>
                 in_window_total (run_ops (SlidingWindowDetector_init a ths ob) cs) m w T =
                   history_total cs m w T)"
  using assms
proof (induction cs rule: rev_induct)
  case Nil
  show ?case
    by (simp add: init_ok history_total_def) (simp add: SlidingWindowDetector_init_def)
next
  case (snoc c cs)
  let ?init = "SlidingWindowDetector_init a ths ob"
  let ?sd = "run_ops ?init cs"
  obtain t x where c: "c = (t, x)" by (cases c)
  from snoc.prems have srt: "sorted (map fst cs)" and below: "\<forall>c' \<in> set cs. fst c' \<le> t"
    by (auto simp: c sorted_append)
  from snoc.IH [OF srt] have ok: "detector_ok ?sd" and ag: "sd_agent_id ?sd = a"
    and th: "sd_thresholds ?sd = sd_thresholds ?init"
    and lt: "\<And>m T. (\<forall>c \<in> set cs. fst c \<le> T) \<Longrightarrow> latest ?sd m T"
    and tot: "\<And>m w T. (\<forall>c \<in> set cs. fst c \<le> T) \<Longrightarrow>
                in_window_total ?sd m w T = history_total cs m w T"
    by simp_all
  show ?case
  proof (cases x)
    case (Record m v)
    let ?sd1 = "sd_record ?sd m v (Some t) t"
    have run: "run_ops ?init (cs @ [c]) = ?sd1" by (simp add: run_ops_snoc c Record)
    have ltm: "latest ?sd m (or_now (Some t) t)" using lt [OF below] by (simp add: or_now_same)
    from record_keeps_ok [OF ok ltm]
    have ok1: "detector_ok ?sd1" and lt1: "latest ?sd1 m t" by (simp_all add: or_now_same)
    have latest1: "latest ?sd1 m' T" if T: "\<forall>c' \<in> set (cs @ [c]). fst c' \<le> T" for m' T
    proof (cases "m' = m")
      case True
      from T have "t \<le> T" by (simp add: c)
      with lt1 True show ?thesis by (simp add: latest_mono)
    next
      case False
      from T have "\<forall>c' \<in> set cs. fst c' \<le> T" by simp
      from lt [OF this] False show ?thesis by (simp add: record_frame)
    qed
    have total1: "in_window_total ?sd1 m' w T = history_total (cs @ [c]) m' w T"
      if T: "\<forall>c' \<in> set (cs @ [c]). fst c' \<le> T" for m' w T
    proof -
      from T have tT: "t \<le> T" and rest: "\<forall>c' \<in> set cs. fst c' \<le> T" by (simp_all add: c)
      show ?thesis
      proof (cases "m' = m")
        case True
        from record_total_at [OF ok, of "Some t" t T m v w] tT
        have "in_window_total ?sd1 m w T =
                in_window_total ?sd m w T + (if t \<ge> T - window_length w then v else 0)"
          by (simp add: or_now_same window_length_value)
        with True tT show ?thesis
          by (simp add: tot [OF rest] c Record history_total_snoc)
      next
        case False
        with tT show ?thesis
          by (simp add: record_other_metric tot [OF rest] c Record history_total_snoc)
      qed
    qed
    have ag1: "sd_agent_id ?sd1 = a" and th1: "sd_thresholds ?sd1 = sd_thresholds ?init"
      by (simp_all add: record_frame ag th)
    show ?thesis
      unfolding run using ok1 ag1 th1 latest1 total1 by simp
  next
    case Check
    from check_thresholds_char [OF ok, of t] obtain sd' where
      ct: "check_thresholds ?sd (Some t) t =
           (map (breach_of ?sd t)
              (filter (\<lambda>th. in_window_total ?sd (wt_metric th) (wt_window th) t > wt_limit th)
                      (sd_thresholds ?sd)), sd')"
      and k: "detector_ok sd'" "sd_agent_id sd' = sd_agent_id ?sd"
        "sd_thresholds sd' = sd_thresholds ?sd"
        "\<forall>m w T. t \<le> T \<longrightarrow> in_window_total sd' m w T = in_window_total ?sd m w T"
        "\<forall>m T. latest ?sd m T \<longrightarrow> latest sd' m T"
      by blast
    have run: "run_ops ?init (cs @ [c]) = sd'" by (simp add: run_ops_snoc c Check ct)
    have latest1: "latest sd' m T" if T: "\<forall>c' \<in> set (cs @ [c]). fst c' \<le> T" for m T
    proof -
      from T have "\<forall>c' \<in> set cs. fst c' \<le> T" by simp
      from lt [OF this] k(5) show ?thesis by blast
    qed
    have total1: "in_window_total sd' m w T = history_total (cs @ [c]) m w T"
      if T: "\<forall>c' \<in> set (cs @ [c]). fst c' \<le> T" for m w T
    proof -
      from T have tT: "t \<le> T" and rest: "\<forall>c' \<in> set cs. fst c' \<le> T" by (simp_all add: c)
      from k(4) tT have "in_window_total sd' m w T = in_window_total ?sd m w T" by blast
      then show ?thesis by (simp add: tot [OF rest] c Check history_total_snoc)
    qed
    show ?thesis
      unfolding run using k(1,2,3) ag th latest1 total1 by simp
  qed
qed

lemma read_total:
  assumes ok: "detector_ok sd"
  shows "fst (mt_get_total (trackers sd m) w (Some t) t) = in_window_total sd m w t"
proof -
  from ok have wok: "window_ok w (windows (trackers sd m) w)" by (simp add: detector_ok_def)
  show ?thesis
    by (simp add: mt_get_total_def sw_get_total_def Let_def or_now_same
        window_ok_prune(2) [OF wok] in_window_total_def)
qed

lemma record_total_exact:
  assumes ok: "detector_ok sd" and lt: "latest sd m t"
  shows "total (windows (trackers (sd_record sd m v (Some t) t) m) w) = in_window_total sd m w t + v"
proof -
  let ?sw = "windows (trackers sd m) w"
  let ?new = "\<lparr> ev_timestamp = t, ev_value = v \<rparr>"
  let ?sw1 = "?sw\<lparr> events := events ?sw @ [?new], total := total ?sw + v \<rparr>"
  from ok have wok: "window_ok w ?sw" by (simp add: detector_ok_def)
  from lt have "\<forall>e \<in> set (events ?sw). ev_timestamp e \<le> t" by (simp add: latest_def)
  with wok have wok1: "window_ok w ?sw1" by (simp add: window_ok_def sorted_append)
  have rec: "windows (trackers (sd_record sd m v (Some t) t) m) w = prune ?sw1 t"
    by (simp add: sd_record_def mt_record_def sw_add_def Let_def or_now_same)
  have pos: "0 < real_of_int (window_value w)" using window_value_pos [of w] by simp
  show ?thesis
    unfolding rec window_ok_prune(2) [OF wok1] using pos by (simp add: in_window_total_def)
qed

lemma expected_breach_eq:
  assumes "sd_agent_id sd = a"
    and "\<forall>m w. in_window_total sd m w t = history_total cs m w t"
  shows "breach_of sd t th = expected_breach a cs t th"
  using assms by (simp add: breach_of_def expected_breach_def)

text \<open>
  C9 (as amended). Take a detector as its constructor builds it and any history of
  \<open>record\<close> and \<open>check_thresholds\<close> calls made in order of time, and then an instant \<open>t\<close>
  no earlier than the last call. Before a further \<open>record(m, v)\<close> at \<open>t\<close>, each of the
  three windows of \<open>m\<close> reads as the history's in-window total for its own length (one,
  six, twenty-four hours); after it, each of the three running totals is that total plus
  \<open>v\<close>, and the windows of the other metrics are untouched. \<open>check_thresholds\<close> at \<open>t\<close>
  returns, in the order of the configured thresholds, exactly one breach for each
  threshold whose own (metric, window) in-window total is strictly above its limit,
  carrying that pair's metric, window, total, limit and action, and none for the others.
\<close>

theorem C9_chronological_windows_and_breaches:
  assumes chrono: "sorted (map fst cs @ [t])"
  shows "(\<forall>w. fst (mt_get_total (trackers (run_ops (SlidingWindowDetector_init a ths ob) cs) m) w (Some t) t)
              = history_total cs m w t)
       \<and> (\<forall>w. total (windows (trackers
                (sd_record (run_ops (SlidingWindowDetector_init a ths ob) cs) m v (Some t) t) m) w)
              = history_total cs m w t + v)
       \<and> (\<forall>w. fst (mt_get_total (trackers
                (sd_record (run_ops (SlidingWindowDetector_init a ths ob) cs) m v (Some t) t) m) w (Some t) t)
              = history_total cs m w t + v)
       \<and> (\<forall>m'. m' \<noteq> m \<longrightarrow>
              trackers (sd_record (run_ops (SlidingWindowDetector_init a ths ob) cs) m v (Some t) t) m'
              = trackers (run_ops (SlidingWindowDetector_init a ths ob) cs) m')
       \<and> fst (check_thresholds (run_ops (SlidingWindowDetector_init a ths ob) cs) (Some t) t) =
           map (expected_breach a cs t)
             (filter (\<lambda>th. history_total cs (wt_metric th) (wt_window th) t > wt_limit th)
                     (sd_thresholds (SlidingWindowDetector_init a ths ob)))"
proof -
  let ?sd = "run_ops (SlidingWindowDetector_init a ths ob) cs"
  let ?sd1 = "sd_record ?sd m v (Some t) t"
  from chrono have srt: "sorted (map fst cs)" and below: "\<forall>c \<in> set cs. fst c \<le> t"
    by (auto simp: sorted_append)
  from run_ops_chronological [OF srt, of a ths ob] below
  have ok: "detector_ok ?sd" and ag: "sd_agent_id ?sd = a"
    and th: "sd_thresholds ?sd = sd_thresholds (SlidingWindowDetector_init a ths ob)"
    and lt: "\<And>m. latest ?sd m t"
    and tot: "\<And>m w. in_window_total ?sd m w t = history_total cs m w t"
    by simp_all
  have before: "\<forall>w. fst (mt_get_total (trackers ?sd m) w (Some t) t) = history_total cs m w t"
    by (simp add: read_total [OF ok] tot)
  have after: "\<forall>w. total (windows (trackers ?sd1 m) w) = history_total cs m w t + v"
    by (simp add: record_total_exact [OF ok lt] tot)
  have ltm: "latest ?sd m (or_now (Some t) t)" using lt by (simp add: or_now_same)
  have ok1: "detector_ok ?sd1" by (rule record_keeps_ok(1) [OF ok ltm])
  have grow: "in_window_total ?sd1 m w t = in_window_total ?sd m w t + v" for w
    using record_total_at [OF ok, of "Some t" t t m v w] window_value_pos [of w]
    by (simp add: or_now_same)
  have read: "\<forall>w. fst (mt_get_total (trackers ?sd1 m) w (Some t) t) = history_total cs m w t + v"
    by (simp add: read_total [OF ok1] grow tot)
  have others: "\<forall>m'. m' \<noteq> m \<longrightarrow> trackers ?sd1 m' = trackers ?sd m'"
    by (simp add: sd_record_def)
  from check_thresholds_char [OF ok, of t] obtain sd' where
    ct: "check_thresholds ?sd (Some t) t =
           (map (breach_of ?sd t)
              (filter (\<lambda>th. in_window_total ?sd (wt_metric th) (wt_window th) t > wt_limit th)
                      (sd_thresholds ?sd)), sd')"
    by blast
  have be: "breach_of ?sd t = expected_breach a cs t"
    by (rule ext, rule expected_breach_eq [OF ag]) (simp add: tot)
  have chk: "fst (check_thresholds ?sd (Some t) t) =
           map (expected_breach a cs t)
             (filter (\<lambda>th. history_total cs (wt_metric th) (wt_window th) t > wt_limit th)
                     (sd_thresholds (SlidingWindowDetector_init a ths ob)))"
    by (simp add: ct be tot th)
  from before after read others chk show ?thesis by blast
qed

lemma drip_history:
  "history_total drip_ops m w 3600 = (if m = BYTES_OUT then 1200000 else 0)"
  by (cases w) (simp_all add: history_total_def drip_ops_def window_length_def)

lemma flood_history:
  "history_total flood_ops m w 3600 = (if m = BYTES_OUT then 10200000 else 0)"
  by (cases w) (simp_all add: history_total_def flood_ops_def drip_ops_def window_length_def)

lemma burst_history:
  "history_total burst_ops BYTES_OUT HOUR_1 50000 = 9000000"
  "history_total burst_ops BYTES_OUT HOUR_6 50000 = 27000000"
  "history_total burst_ops BYTES_OUT HOUR_24 50000 = 54000000"
  "history_total burst_ops API_CALLS HOUR_1 50000 = 0"
  "history_total burst_ops RECORDS_ACCESSED w 50000 = 0"
  "history_total burst_ops FILES_READ w 50000 = 0"
  "history_total burst_ops CONNECTIONS w 50000 = 0"
  by (simp_all add: history_total_def burst_ops_def window_length_def)

lemma fresh_thresholds:
  "sd_thresholds (SlidingWindowDetector_init ''agent-001'' None False) = DEFAULT_WINDOW_THRESHOLDS"
  by (simp add: SlidingWindowDetector_init_def)

theorem C9_witness:
  "sorted (map fst drip_ops @ [3600]) \<and> sorted (map fst flood_ops @ [3600]) \<and>
   sorted (map fst burst_ops @ [50000]) \<and>
   fst (check_thresholds (run_ops fresh_detector drip_ops) (Some 3600) 3600) = [] \<and>
   fst (check_thresholds (run_ops fresh_detector flood_ops) (Some 3600) 3600) =
     [\<lparr> wb_metric = BYTES_OUT, wb_window = HOUR_1, wb_current_value = 10200000,
        wb_limit = 10000000, wb_action = ''alert'', wb_agent_id = ''agent-001'' \<rparr>] \<and>
   fst (check_thresholds (run_ops fresh_detector burst_ops) (Some 50000) 50000) =
     [\<lparr> wb_metric = BYTES_OUT, wb_window = HOUR_24, wb_current_value = 54000000,
        wb_limit = 50000000, wb_action = ''kill'', wb_agent_id = ''agent-001'' \<rparr>] \<and>
   total (windows (trackers (sd_record (run_ops fresh_detector burst_ops) BYTES_OUT 1000000
            (Some 50000) 50000) BYTES_OUT) HOUR_1) = 10000000 \<and>
   total (windows (trackers (sd_record (run_ops fresh_detector burst_ops) BYTES_OUT 1000000
            (Some 50000) 50000) BYTES_OUT) HOUR_6) = 28000000 \<and>
   total (windows (trackers (sd_record (run_ops fresh_detector burst_ops) BYTES_OUT 1000000
            (Some 50000) 50000) BYTES_OUT) HOUR_24) = 55000000"
proof -
  have s1: "sorted (map fst drip_ops @ [3600])" by (simp add: drip_ops_def)
  have s2: "sorted (map fst flood_ops @ [3600])" by (simp add: flood_ops_def drip_ops_def)
  have s3: "sorted (map fst burst_ops @ [50000])" by (simp add: burst_ops_def)
  note d = C9_chronological_windows_and_breaches [OF s1, where a = "''agent-001''" and ths = None
      and ob = False and m = BYTES_OUT and v = 0]
  note f = C9_chronological_windows_and_breaches [OF s2, where a = "''agent-001''" and ths = None
      and ob = False and m = BYTES_OUT and v = 0]
  note b = C9_chronological_windows_and_breaches [OF s3, where a = "''agent-001''" and ths = None
      and ob = False and m = BYTES_OUT and v = 1000000]
  from d have c1: "fst (check_thresholds (run_ops fresh_detector drip_ops) (Some 3600) 3600) = []"
    by (simp add: fresh_detector_def fresh_thresholds drip_history DEFAULT_WINDOW_THRESHOLDS_def
        mk_window_threshold_def)
  from f have c2: "fst (check_thresholds (run_ops fresh_detector flood_ops) (Some 3600) 3600) =
     [\<lparr> wb_metric = BYTES_OUT, wb_window = HOUR_1, wb_current_value = 10200000,
        wb_limit = 10000000, wb_action = ''alert'', wb_agent_id = ''agent-001'' \<rparr>]"
    by (simp add: fresh_detector_def fresh_thresholds flood_history DEFAULT_WINDOW_THRESHOLDS_def
        mk_window_threshold_def expected_breach_def)
  from b have c3: "fst (check_thresholds (run_ops fresh_detector burst_ops) (Some 50000) 50000) =
     [\<lparr> wb_metric = BYTES_OUT, wb_window = HOUR_24, wb_current_value = 54000000,
        wb_limit = 50000000, wb_action = ''kill'', wb_agent_id = ''agent-001'' \<rparr>]"
    by (simp add: fresh_detector_def fresh_thresholds burst_history DEFAULT_WINDOW_THRESHOLDS_def
        mk_window_threshold_def expected_breach_def)
  from b have c4: "total (windows (trackers (sd_record (run_ops fresh_detector burst_ops) BYTES_OUT 1000000
            (Some 50000) 50000) BYTES_OUT) HOUR_1) = 10000000"
    "total (windows (trackers (sd_record (run_ops fresh_detector burst_ops) BYTES_OUT 1000000
            (Some 50000) 50000) BYTES_OUT) HOUR_6) = 28000000"
    "total (windows (trackers (sd_record (run_ops fresh_detector burst_ops) BYTES_OUT 1000000
            (Some 50000) 50000) BYTES_OUT) HOUR_24) = 55000000"
    by (simp_all add: fresh_detector_def burst_history)
  from s1 s2 s3 c1 c2 c3 c4 show ?thesis by simp
qed

lemmas window_run_defs = sd_record_def mt_record_def sw_add_def prune_def Let_def or_now_def
  check_thresholds_def check_one_def mt_get_total_def sw_get_total_def
  SlidingWindowDetector_init_def MetricTracker_init_def SlidingWindow_init_def

lemma backwards_state:
  "events (windows (trackers (run_ops fresh_detector backwards_ops) BYTES_OUT) HOUR_1) =
     [\<lparr> ev_timestamp = 5000, ev_value = 100 \<rparr>, \<lparr> ev_timestamp = 1000, ev_value = 20000000 \<rparr>]"
  "total (windows (trackers (run_ops fresh_detector backwards_ops) BYTES_OUT) HOUR_1) = 20000100"
  by (simp_all add: backwards_ops_def fresh_detector_def window_run_defs)

text \<open>
  The claim as first stated, for every sequence of calls, fails when timestamps go
  backwards. After \<open>record(BYTES_OUT, 100, ts=5000)\<close> and
  \<open>record(BYTES_OUT, 20000000, ts=1000)\<close> the one-hour window that ends at 8000 holds
  100 bytes, below the limit of 10,000,000; pruning stops at the event of instant 5000
  at the head of the queue, the running total stays 20,000,100, and \<open>check_thresholds\<close>
  at 8000 reports a one-hour breach.
\<close>

theorem C9_counterexample:
  "history_total backwards_ops BYTES_OUT HOUR_1 8000 = 100 \<and>
   fst (check_thresholds (run_ops fresh_detector backwards_ops) (Some 8000) 8000) =
     [\<lparr> wb_metric = BYTES_OUT, wb_window = HOUR_1, wb_current_value = 20000100,
        wb_limit = 10000000, wb_action = ''alert'', wb_agent_id = ''agent-001'' \<rparr>]"
  by (simp add: history_total_def backwards_ops_def window_length_def fresh_detector_def
      window_run_defs DEFAULT_WINDOW_THRESHOLDS_def mk_window_threshold_def)


section \<open>Kill executor\<close>

lemma alive_iff:
  "is_process_alive p w = (case procs w p of None \<Rightarrow> False | Some pr \<Rightarrow> \<not> exited pr (clock w))"
  by (simp add: is_process_alive_def os_kill_def split: option.splits)

lemma alive_clock_only:
  "procs w' = procs w \<Longrightarrow> clock w' = clock w \<Longrightarrow> is_process_alive p w' = is_process_alive p w"
  by (auto simp: alive_iff split: option.splits)

lemma dead_stays_dead:
  "\<not> is_process_alive p (w\<lparr> clock := t \<rparr>) \<Longrightarrow> t \<le> t' \<Longrightarrow> \<not> is_process_alive p (w\<lparr> clock := t' \<rparr>)"
  by (auto simp: alive_iff exited_def split: option.splits)

lemma wait_loop_bounded:
  assumes i: "0 < verify_interval hk"
    and bound: "start + timeout - clock w \<le> real n * verify_interval hk"
  shows "\<exists>k b. wait_for_death_loop hk p start timeout w =
                  Some (b, w\<lparr> clock := clock w + real k * verify_interval hk \<rparr>) \<and>
               (b \<longrightarrow> \<not> is_process_alive p (w\<lparr> clock := clock w + real k * verify_interval hk \<rparr>) \<and>
                      clock w + real k * verify_interval hk - start < timeout) \<and>
               (\<not> b \<longrightarrow> timeout \<le> clock w + real k * verify_interval hk - start) \<and>
               (\<forall>j<k. is_process_alive p (w\<lparr> clock := clock w + real j * verify_interval hk \<rparr>) \<and>
                       clock w + real j * verify_interval hk - start < timeout)"
  using bound
proof (induction n arbitrary: w)
  case 0
  then have "\<not> clock w - start < timeout" by simp
  then have "wait_for_death_loop hk p start timeout w = Some (False, w)"
    by (subst wait_for_death_loop.simps) simp
  then show ?case
    by (intro exI [of _ 0] exI [of _ False]) (use 0 in simp)
next
  case (Suc n)
  let ?i = "verify_interval hk"
  show ?case
  proof (cases "clock w - start < timeout")
    case False
    then have "wait_for_death_loop hk p start timeout w = Some (False, w)"
      by (subst wait_for_death_loop.simps) simp
    then show ?thesis
      by (intro exI [of _ 0] exI [of _ False]) (use False in simp)
  next
    case inside: True
    show ?thesis
    proof (cases "is_process_alive p w")
      case False
      then have "wait_for_death_loop hk p start timeout w = Some (True, w)"
        using inside by (subst wait_for_death_loop.simps) simp
      then show ?thesis
        by (intro exI [of _ 0] exI [of _ True]) (use False inside in simp)
    next
      case alive: True
      let ?w1 = "sleep ?i w"
      have unf: "wait_for_death_loop hk p start timeout w = wait_for_death_loop hk p start timeout ?w1"
        using inside alive i by (subst wait_for_death_loop.simps) simp
      have c1: "clock ?w1 = clock w + ?i" by (simp add: sleep_def)
      have b1: "start + timeout - clock ?w1 \<le> real n * ?i"
        using Suc.prems by (simp add: c1 algebra_simps)
      have eq: "clock w + ?i + real j * ?i = clock w + real (Suc j) * ?i" for j
        by (simp add: algebra_simps)
      from Suc.IH [OF b1] obtain k b where
        r: "wait_for_death_loop hk p start timeout ?w1 = Some (b, w\<lparr> clock := clock w + ?i + real k * ?i \<rparr>)"
        and tb: "b \<longrightarrow> \<not> is_process_alive p (w\<lparr> clock := clock w + ?i + real k * ?i \<rparr>) \<and>
                      clock w + ?i + real k * ?i - start < timeout"
        and fb: "\<not> b \<longrightarrow> timeout \<le> clock w + ?i + real k * ?i - start"
        and polls: "\<forall>j<k. is_process_alive p (w\<lparr> clock := clock w + ?i + real j * ?i \<rparr>) \<and>
                       clock w + ?i + real j * ?i - start < timeout"
        unfolding sleep_def by auto
      have all: "\<forall>j<Suc k. is_process_alive p (w\<lparr> clock := clock w + real j * ?i \<rparr>) \<and>
                       clock w + real j * ?i - start < timeout"
      proof (intro allI impI)
        fix j assume "j < Suc k"
        show "is_process_alive p (w\<lparr> clock := clock w + real j * ?i \<rparr>) \<and>
                       clock w + real j * ?i - start < timeout"
        proof (cases j)
          case 0
          then show ?thesis using alive inside by simp
        next
          case (Suc j')
          with \<open>j < Suc k\<close> have "j' < k" by simp
          with polls have "is_process_alive p (w\<lparr> clock := clock w + ?i + real j' * ?i \<rparr>) \<and>
                       clock w + ?i + real j' * ?i - start < timeout" by blast
          then show ?thesis unfolding eq Suc .
        qed
      qed
      show ?thesis
        apply (intro exI [of _ "Suc k"] exI [of _ b])
        using r tb fb all unfolding unf eq by blast
    qed
  qed
qed

lemma wait_loop_returns:
  assumes i: "0 < verify_interval hk"
  shows "\<exists>k b. wait_for_death_loop hk p start timeout w =
                  Some (b, w\<lparr> clock := clock w + real k * verify_interval hk \<rparr>) \<and>
               (b \<longrightarrow> \<not> is_process_alive p (w\<lparr> clock := clock w + real k * verify_interval hk \<rparr>) \<and>
                      clock w + real k * verify_interval hk - start < timeout) \<and>
               (\<not> b \<longrightarrow> timeout \<le> clock w + real k * verify_interval hk - start) \<and>
               (\<forall>j<k. is_process_alive p (w\<lparr> clock := clock w + real j * verify_interval hk \<rparr>) \<and>
                       clock w + real j * verify_interval hk - start < timeout)"
proof -
  obtain n where "(start + timeout - clock w) / verify_interval hk \<le> real n"
    using real_arch_simple by blast
  with i have "start + timeout - clock w \<le> real n * verify_interval hk"
    by (simp add: pos_divide_le_eq)
  then show ?thesis by (rule wait_loop_bounded [OF i])
qed

lemma verify_loop_returns:
  assumes i: "0 \<le> verify_interval hk"
  shows "\<exists>k b. verify_death_loop hk p n w =
                  Some (b, w\<lparr> clock := clock w + real k * verify_interval hk \<rparr>) \<and> k \<le> n \<and>
               (b \<longleftrightarrow> \<not> is_process_alive p (w\<lparr> clock := clock w + real k * verify_interval hk \<rparr>))"
proof (induction n arbitrary: w)
  case 0
  show ?case by (intro exI [of _ 0] exI [of _ "\<not> is_process_alive p w"]) simp
next
  case (Suc n)
  let ?i = "verify_interval hk"
  show ?case
  proof (cases "is_process_alive p w")
    case False
    then show ?thesis by (intro exI [of _ 0] exI [of _ True]) simp
  next
    case True
    let ?w1 = "sleep ?i w"
    have eq: "clock w + ?i + real j * ?i = clock w + real (Suc j) * ?i" for j
      by (simp add: algebra_simps)
    from Suc.IH [of ?w1] obtain k b where
      r: "verify_death_loop hk p n ?w1 = Some (b, w\<lparr> clock := clock w + ?i + real k * ?i \<rparr>)"
      and kn: "k \<le> n"
      and bb: "b \<longleftrightarrow> \<not> is_process_alive p (w\<lparr> clock := clock w + ?i + real k * ?i \<rparr>)"
      unfolding sleep_def by auto
    show ?thesis
      apply (intro exI [of _ "Suc k"] exI [of _ b])
      using True i r kn bb unfolding eq by simp
  qed
qed

lemma wait_for_death_char:
  assumes i: "0 < verify_interval hk"
  shows "\<exists>k. wait_for_death hk p (soft_timeout hk) w =
               Some (poll_sees_death hk p w, w\<lparr> clock := clock w + real k * verify_interval hk \<rparr>) \<and>
             (poll_sees_death hk p w \<longrightarrow>
                \<not> is_process_alive p (w\<lparr> clock := clock w + real k * verify_interval hk \<rparr>) \<and>
                real k * verify_interval hk < soft_timeout hk) \<and>
             (\<not> poll_sees_death hk p w \<longrightarrow> soft_timeout hk \<le> real k * verify_interval hk)"
proof -
  let ?i = "verify_interval hk" and ?T = "soft_timeout hk"
  from wait_loop_returns [OF i, of p "clock w" ?T w] obtain k b where
    r: "wait_for_death_loop hk p (clock w) ?T w = Some (b, w\<lparr> clock := clock w + real k * ?i \<rparr>)"
    and tb: "b \<longrightarrow> \<not> is_process_alive p (w\<lparr> clock := clock w + real k * ?i \<rparr>) \<and> real k * ?i < ?T"
    and fb: "\<not> b \<longrightarrow> ?T \<le> real k * ?i"
    and polls: "\<forall>j<k. is_process_alive p (w\<lparr> clock := clock w + real j * ?i \<rparr>)"
    by auto
  have "b = poll_sees_death hk p w"
  proof (cases b)
    case True
    with tb show ?thesis by (auto simp: poll_sees_death_def)
  next
    case False
    have "\<not> poll_sees_death hk p w"
    proof
      assume "poll_sees_death hk p w"
      then obtain k0 where k0: "real k0 * ?i < ?T"
        and dead: "\<not> is_process_alive p (w\<lparr> clock := clock w + real k0 * ?i \<rparr>)"
        by (auto simp: poll_sees_death_def)
      from k0 fb False have "real k0 * ?i < real k * ?i" by simp
      with i have "k0 < k" by simp
      with polls dead show False by blast
    qed
    with False show ?thesis by simp
  qed
  with r tb fb show ?thesis by (auto simp: wait_for_death_def)
qed



lemma verify_death_char:
  assumes i: "0 \<le> verify_interval hk"
  shows "\<exists>k. verify_death hk p w =
               Some (\<not> is_process_alive p (w\<lparr> clock := clock w + real k * verify_interval hk \<rparr>),
                     w\<lparr> clock := clock w + real k * verify_interval hk \<rparr>)"
  using verify_loop_returns [OF i, of p "nat (max_verify_attempts hk)" w]
  by (auto simp: verify_death_def)

lemma calls_clock [simp]:
  "term_calls p (w\<lparr> clock := c \<rparr>) = term_calls p w"
  "kill_call_times p (w\<lparr> clock := c \<rparr>) = kill_call_times p w"
  by (simp_all add: term_calls_def kill_call_times_def)

lemma calls_procs [simp]:
  "term_calls p (w\<lparr> procs := f \<rparr>) = term_calls p w"
  "kill_call_times p (w\<lparr> procs := f \<rparr>) = kill_call_times p w"
  by (simp_all add: term_calls_def kill_call_times_def)

lemma calls_term [simp]:
  "term_calls p (w\<lparr> signals := signals w @ [(t, SIGTERM, p)] \<rparr>) = term_calls p w + 1"
  "kill_call_times p (w\<lparr> signals := signals w @ [(t, SIGTERM, q)] \<rparr>) = kill_call_times p w"
  by (simp_all add: term_calls_def kill_call_times_def)



lemmas world_defs = one_process_def quick_hk_def HardKill_init_def HardKill_default_def

lemmas run_defs = kill_def Let_def is_process_alive_def os_kill_def send_soft_kill_def
  send_hard_kill_def wait_for_death_def wait_for_death_loop.simps verify_death_def
  exited_def schedule_exit_def sleep_def


lemma verify_loop_numeral:
  "verify_death_loop hk p (numeral n) w =
     (if \<not> is_process_alive p w then Some (True, w)
      else if verify_interval hk < 0 then None
      else verify_death_loop hk p (pred_numeral n) (sleep (verify_interval hk) w))"
  by (simp add: numeral_eq_Suc)







section \<open>Agent terminator\<close>

lemma kill_returns:
  assumes i: "0 < verify_interval hk"
  shows "\<exists>r w'. kill hk p e w = Some (r, w') \<and> pid r = p"
proof (cases "is_process_alive p w")
  case False
  then show ?thesis by (simp add: kill_def)
next
  case alive: True
  obtain sb w1 where s: "send_soft_kill p w = (sb, w1)" by (cases "send_soft_kill p w")
  from wait_for_death_char [OF i, of p w1] obtain d w2 where
    wd: "wait_for_death hk p (soft_timeout hk) w1 = Some (d, w2)" by blast
  obtain hb w3 where h: "send_hard_kill p w2 = (hb, w3)" by (cases "send_hard_kill p w2")
  from i have "0 \<le> verify_interval hk" by simp
  from verify_death_char [OF this, of p w3] obtain g w4 where
    vd: "verify_death hk p w3 = Some (g, w4)" by blast
  show ?thesis using alive s wd h vd by (simp add: kill_def Let_def)
qed

lemma kill_each_returns:
  assumes i: "0 < verify_interval hk"
  shows "\<exists>rs w'. kill_each hk ps w = Some (rs, w') \<and> map pid rs = ps"
proof (induction ps arbitrary: w)
  case Nil
  show ?case by simp
next
  case (Cons p ps)
  from kill_returns [OF i, of p True w] obtain r w1 where
    k: "kill hk p True w = Some (r, w1)" and pr: "pid r = p" by blast
  from Cons.IH [of w1] obtain rs w2 where
    ke: "kill_each hk ps w1 = Some (rs, w2)" and prs: "map pid rs = ps" by blast
  show ?case using k pr ke prs by simp
qed

lemma kill_tree_returns:
  assumes i: "0 < verify_interval hk"
  shows "\<exists>rs w'. kill_tree hk p w = Some (rs, w') \<and> rs \<noteq> [] \<and> pid (last rs) = p"
proof -
  from kill_each_returns [OF i, of "rev (children w p) @ [p]" w] obtain rs w' where
    ke: "kill_each hk (rev (children w p) @ [p]) w = Some (rs, w')"
    and prs: "map pid rs = rev (children w p) @ [p]" by blast
  from prs have ne: "rs \<noteq> []" by auto
  from prs ne have "pid (last rs) = last (rev (children w p) @ [p])"
    by (metis last_map)
  then have "pid (last rs) = p" by simp
  with ke ne show ?thesis by (simp add: kill_tree_def)
qed

lemma unregister_history [simp]:
  "kill_history (unregister_agent tm a) = kill_history tm"
  by (simp add: unregister_agent_def)

lemma unregister_lookup:
  "map_of (agents (unregister_agent tm a)) b = (if b = a then None else map_of (agents tm) b)"
  by (simp add: unregister_agent_def delete_conv')

text \<open>
  C2 (as amended). For a registered agent and a positive polling interval, \<open>kill_agent\<close>
  returns the report of the attempt on the agent's own process, appends that report to the
  kill history, and removes the agent from the registry, whatever the result in the
  report is; the registrations of the other agents stay as they are. The test
  \<open>if report:\<close> that guards the two updates only tells a report from \<open>None\<close>.
\<close>

theorem C2_kill_agent_unregisters_whatever_the_outcome:
  assumes reg: "map_of (agents tm) a = Some p"
    and i: "0 < verify_interval (hard_kill tm)"
  shows "\<exists>r tm' w'. kill_agent tm a kc w = Some (Some r, tm', w') \<and> pid r = p \<and>
           kill_history tm' = kill_history tm @ [r] \<and>
           map_of (agents tm') a = None \<and>
           (\<forall>b. b \<noteq> a \<longrightarrow> map_of (agents tm') b = map_of (agents tm) b)"
proof (cases kc)
  case True
  from kill_tree_returns [OF i, of p w] obtain rs w' where
    kt: "kill_tree (hard_kill tm) p w = Some (rs, w')" and ne: "rs \<noteq> []"
    and pl: "pid (last rs) = p" by blast
  show ?thesis
    using True reg kt ne pl by (simp add: kill_agent_def unregister_lookup)
next
  case False
  from kill_returns [OF i, of p True w] obtain r w' where
    k: "kill (hard_kill tm) p True w = Some (r, w')" and pr: "pid r = p" by blast
  show ?thesis
    using False reg k pr by (simp add: kill_agent_def unregister_lookup)
qed

lemma one_agent_facts:
  "map_of (agents one_agent) ''agent-1'' = Some 4242"
  "hard_kill one_agent = HardKill_default"
  "kill_history one_agent = []"
  "agents one_agent = [(''agent-1'', 4242)]"
  by (simp_all add: one_agent_def register_agent_def AgentTerminator_init_def)

lemma protected_run:
  "kill HardKill_default 4242 True protected_world =
     Some (\<lparr> pid = 4242, result = PERMISSION_DENIED, soft_signal_sent = False,
              hard_signal_sent = False, time_to_death_ms = None,
              error = Some ''Failed to send SIGTERM - check permissions'' \<rparr>,
           protected_world\<lparr> signals := [(0, SIGTERM, 4242)] \<rparr>)"
  by (simp add: protected_world_def world_defs run_defs)

lemma immortal_run:
  "map_option (\<lambda>x. (result (fst x), soft_signal_sent (fst x), hard_signal_sent (fst x), signals (snd x)))
     (kill HardKill_default 4242 True immortal_world) =
   Some (ZOMBIE, True, True, [(0, SIGTERM, 4242), (2, SIGKILL, 4242)])"
  by (simp add: immortal_world_def world_defs run_defs verify_loop_numeral)

text \<open>
  The claim as first stated fails at every failure outcome: an agent whose process the
  caller may not signal gets the report \<open>permission_denied\<close>, one whose process survives
  both signals gets \<open>zombie\<close>, and in both cases the registry is empty afterwards.
\<close>

theorem C2_counterexample:
  "map_of (agents one_agent) ''agent-1'' = Some 4242 \<and>
   map_option (map_option result \<circ> fst) (kill_agent one_agent ''agent-1'' True protected_world) =
     Some (Some PERMISSION_DENIED) \<and>
   map_option (agents \<circ> fst \<circ> snd) (kill_agent one_agent ''agent-1'' True protected_world) = Some [] \<and>
   map_option (map_option result \<circ> fst) (kill_agent one_agent ''agent-1'' False immortal_world) =
     Some (Some ZOMBIE) \<and>
   map_option (agents \<circ> fst \<circ> snd) (kill_agent one_agent ''agent-1'' False immortal_world) = Some []"
proof -
  have kids: "children protected_world 4242 = []"
    by (simp add: protected_world_def one_process_def)
  have a: "kill_agent one_agent ''agent-1'' True protected_world =
     Some (Some \<lparr> pid = 4242, result = PERMISSION_DENIED, soft_signal_sent = False,
              hard_signal_sent = False, time_to_death_ms = None,
              error = Some ''Failed to send SIGTERM - check permissions'' \<rparr>,
           unregister_agent (one_agent\<lparr> kill_history := kill_history one_agent @
             [\<lparr> pid = 4242, result = PERMISSION_DENIED, soft_signal_sent = False,
              hard_signal_sent = False, time_to_death_ms = None,
              error = Some ''Failed to send SIGTERM - check permissions'' \<rparr>] \<rparr>) ''agent-1'',
           protected_world\<lparr> signals := [(0, SIGTERM, 4242)] \<rparr>)"
    by (simp add: kill_agent_def one_agent_facts kill_tree_def kids protected_run)
  obtain r w' where k: "kill HardKill_default 4242 True immortal_world = Some (r, w')"
    using immortal_run by (cases "kill HardKill_default 4242 True immortal_world") auto
  with immortal_run have z: "result r = ZOMBIE" by simp
  have b: "kill_agent one_agent ''agent-1'' False immortal_world =
     Some (Some r, unregister_agent (one_agent\<lparr> kill_history := kill_history one_agent @ [r] \<rparr>) ''agent-1'', w')"
    by (simp add: kill_agent_def one_agent_facts k)
  show ?thesis
    by (simp add: a b z one_agent_facts unregister_agent_def)
qed

theorem C2_witness:
  "map_of (agents one_agent) ''agent-1'' = Some 4242 \<and>
   0 < verify_interval (hard_kill one_agent) \<and>
   kill_agent one_agent ''agent-1'' True protected_world \<noteq> None \<and>
   fst (the (kill_agent one_agent ''agent-1'' True protected_world)) \<noteq> None \<and>
   pid (the (fst (the (kill_agent one_agent ''agent-1'' True protected_world)))) = 4242 \<and>
   kill_history (fst (snd (the (kill_agent one_agent ''agent-1'' True protected_world)))) =
     [the (fst (the (kill_agent one_agent ''agent-1'' True protected_world)))] \<and>
   map_of (agents (fst (snd (the (kill_agent one_agent ''agent-1'' True protected_world))))) ''agent-1''
     = None"
proof -
  have i: "0 < verify_interval (hard_kill one_agent)"
    by (simp add: one_agent_facts HardKill_default_def HardKill_init_def)
  from C2_kill_agent_unregisters_whatever_the_outcome [OF one_agent_facts(1) i,
      of True protected_world]
  obtain r tm' w' where
    k: "kill_agent one_agent ''agent-1'' True protected_world = Some (Some r, tm', w')"
    and p: "pid r = 4242"
    and h: "kill_history tm' = kill_history one_agent @ [r]"
    and g: "map_of (agents tm') ''agent-1'' = None"
    by blast
  show ?thesis using i k p h g by (simp add: one_agent_facts)
qed


section \<open>Network containment\<close>











































end
